theory Spec2Isabelle
  imports Main "HOL-Library.Word" "HOL-Library.List_Lexorder"
begin

section \<open>JavaScript values used by the generator\<close>

subsection \<open>Strings\<close>

text \<open>
  A JavaScript string is a sequence of UTF-16 code units. Regular expressions without the
  \<open>u\<close> flag, \<open>Array.prototype.sort\<close> without a comparator, \<open>Set\<close> and \<open>Map\<close> keys and
  \<open>===\<close> all work on code units, so a string is modelled as a list of 16-bit words. The
  order on strings is the lexicographic order of the code units (a proper prefix is smaller),
  which is the order the default \<open>sort\<close> uses.
\<close>

type_synonym jschar = "16 word"
type_synonym jsstring = "jschar list"

definition js :: "string \<Rightarrow> jsstring" where
  "js s = map of_char s"

text \<open>\<open>xs.join(sep)\<close> on an array of strings.\<close>

fun join :: "jsstring \<Rightarrow> jsstring list \<Rightarrow> jsstring" where
  "join sep [] = []"
| "join sep [x] = x"
| "join sep (x # y # ys) = x @ sep @ join sep (y # ys)"

text \<open>
  \<open>s.replace(/[...]/g, r)\<close> for a character class: every code unit in the class \<open>P\<close> is
  replaced by \<open>r\<close> (none of the replacement strings in the sources contains a \<open>$\<close> pattern).
\<close>

definition replaceAll :: "(jschar \<Rightarrow> bool) \<Rightarrow> jsstring \<Rightarrow> jsstring \<Rightarrow> jsstring" where
  "replaceAll P r s = concat (map (\<lambda>c. if P c then r else [c]) s)"

text \<open>\<open>/^[...]/.test(s)\<close>: the string is not empty and its first code unit is in the class.\<close>

fun startsWith :: "(jschar \<Rightarrow> bool) \<Rightarrow> jsstring \<Rightarrow> bool" where
  "startsWith P [] = False"
| "startsWith P (c # cs) = P c"

definition isUpper :: "jschar \<Rightarrow> bool" where
  "isUpper c = (0x41 \<le> c \<and> c \<le> 0x5A)"

definition isLower :: "jschar \<Rightarrow> bool" where
  "isLower c = (0x61 \<le> c \<and> c \<le> 0x7A)"

definition isDigit :: "jschar \<Rightarrow> bool" where
  "isDigit c = (0x30 \<le> c \<and> c \<le> 0x39)"

text \<open>The class \<open>[A-Za-z0-9_$]\<close>.\<close>

definition isIdentPart :: "jschar \<Rightarrow> bool" where
  "isIdentPart c = (isUpper c \<or> isLower c \<or> isDigit c \<or> c = 0x5F \<or> c = 0x24)"

text \<open>The class \<open>[A-Za-z_$]\<close>.\<close>

definition isIdentStart :: "jschar \<Rightarrow> bool" where
  "isIdentStart c = (isUpper c \<or> isLower c \<or> c = 0x5F \<or> c = 0x24)"

subsection \<open>Sets and maps\<close>

text \<open>
  A JavaScript \<open>Set\<close> iterates in insertion order and holds each element once: a list
  without repetition, \<open>add\<close> appending an element that is not there yet.
\<close>

definition set_add :: "'a list \<Rightarrow> 'a \<Rightarrow> 'a list" where
  "set_add s x = (if x \<in> set s then s else s @ [x])"

definition new_Set :: "'a list \<Rightarrow> 'a list" where
  "new_Set xs = fold (\<lambda>x s. set_add s x) xs []"

text \<open>
  A JavaScript \<open>Map\<close> iterates in insertion order of its keys: an association list.
  \<open>set\<close> overwrites the value of a key in place and appends a new key at the end.
\<close>

fun map_set :: "('k \<times> 'v) list \<Rightarrow> 'k \<Rightarrow> 'v \<Rightarrow> ('k \<times> 'v) list" where
  "map_set [] k v = [(k, v)]"
| "map_set ((k', v') # m) k v = (if k' = k then (k, v) # m else (k', v') # map_set m k v)"

fun map_get :: "('k \<times> 'v) list \<Rightarrow> 'k \<Rightarrow> 'v option" where
  "map_get [] k = None"
| "map_get ((k', v') # m) k = (if k' = k then Some v' else map_get m k)"

definition map_has :: "('k \<times> 'v) list \<Rightarrow> 'k \<Rightarrow> bool" where
  "map_has m k = (map_get m k \<noteq> None)"

definition map_keys :: "('k \<times> 'v) list \<Rightarrow> 'k list" where
  "map_keys m = map fst m"

definition map_values :: "('k \<times> 'v) list \<Rightarrow> 'v list" where
  "map_values m = map snd m"

text \<open>The association lists that are maps: no key twice.\<close>

definition is_Map :: "('k \<times> 'v) list \<Rightarrow> bool" where
  "is_Map m = distinct (map fst m)"

section \<open>The code generator\<close>

subsection \<open>Identifier sanitizer\<close>

definition TS_RESERVED :: "jsstring list" where
  "TS_RESERVED = map js
     [''break'', ''case'', ''catch'', ''class'', ''const'', ''continue'', ''debugger'',
      ''default'', ''delete'', ''do'', ''else'', ''enum'', ''export'', ''extends'', ''false'',
      ''finally'', ''for'', ''function'', ''if'', ''import'', ''in'', ''instanceof'', ''new'',
      ''null'', ''return'', ''super'', ''switch'', ''this'', ''throw'', ''true'', ''try'',
      ''typeof'', ''var'', ''void'', ''while'', ''with'', ''as'', ''implements'',
      ''interface'', ''let'', ''package'', ''private'', ''protected'', ''public'', ''static'',
      ''yield'', ''any'', ''boolean'', ''number'', ''string'', ''symbol'', ''type'',
      ''unknown'', ''never'', ''object'', ''readonly'', ''keyof'', ''declare'', ''abstract'',
      ''namespace'', ''module'', ''global'', ''require'']"

definition toTsIdent :: "jsstring \<Rightarrow> jsstring" where
  "toTsIdent schemaName =
     (let out = replaceAll (\<lambda>c. \<not> isIdentPart c) (js ''_'') schemaName;
          out = (if startsWith isDigit out then js ''_'' @ out else out);
          out = (if \<not> startsWith isIdentStart out then js ''_'' @ out else out);
          out = (if out \<in> set TS_RESERVED then out @ js ''_'' else out)
      in out)"

text \<open>
  The strings the sanitizer returns: the whole string matches \<open>[A-Za-z_$][A-Za-z0-9_$]*\<close>
  and is not in the generator's own list \<open>TS_RESERVED\<close>. This is an invariant of the code,
  not validity in the target language.
\<close>

fun matchesIdentifier :: "jsstring \<Rightarrow> bool" where
  "matchesIdentifier [] = False"
| "matchesIdentifier (c # cs) = (isIdentStart c \<and> list_all isIdentPart cs)"

definition sanitized :: "jsstring \<Rightarrow> bool" where
  "sanitized s = (matchesIdentifier s \<and> s \<notin> set TS_RESERVED)"

subsection \<open>Type mapping\<close>

record PropDef =
  prop_name :: jsstring
  prop_iri :: jsstring
  domains :: "jsstring list"
  ranges :: "jsstring list"

definition rangeToTs :: "jsstring \<Rightarrow> (jsstring \<times> jsstring) list \<Rightarrow> jsstring" where
  "rangeToTs rangeName classIdentByName =
     (if rangeName = js ''Text'' \<or> rangeName = js ''URL'' then js ''string''
      else if rangeName = js ''Boolean'' then js ''boolean''
      else if rangeName = js ''Number'' \<or> rangeName = js ''Integer'' \<or> rangeName = js ''Float''
        then js ''number''
      else if rangeName = js ''Date'' \<or> rangeName = js ''DateTime'' \<or> rangeName = js ''Time''
        then js ''string''
      else
        (let ident = (case map_get classIdentByName rangeName of
                        Some i \<Rightarrow> i
                      | None \<Rightarrow> toTsIdent rangeName)
         in ident @ js '' | string''))"

definition propToTs :: "PropDef \<Rightarrow> (jsstring \<times> jsstring) list \<Rightarrow> jsstring" where
  "propToTs prop classIdentByName =
     (let rs = sort (new_Set (ranges prop)) in
      if rs = [] then js ''unknown''
      else
        (let union = join (js '' | '') (map (\<lambda>r. rangeToTs r classIdentByName) rs)
         in union @ js '' | Array<'' @ union @ js ''>''))"

subsection \<open>Topological linearizer\<close>

record ClassDef =
  name :: jsstring
  iri :: jsstring
  parents :: "jsstring list"
  properties :: "jsstring list"

text \<open>The one exception the generator can raise by itself: a member access on \<open>undefined\<close>.\<close>

datatype error = TypeError

text \<open>\<open>indeg.get(n) ?? 0\<close>\<close>

definition num_get :: "(jsstring \<times> int) list \<Rightarrow> jsstring \<Rightarrow> int" where
  "num_get indeg n = (case map_get indeg n of Some v \<Rightarrow> v | None \<Rightarrow> 0)"

text \<open>\<open>children.get(n) ?? []\<close>\<close>

definition children_of :: "(jsstring \<times> jsstring list) list \<Rightarrow> jsstring \<Rightarrow> jsstring list" where
  "children_of children n = (case map_get children n of Some s \<Rightarrow> s | None \<Rightarrow> [])"

text \<open>The first loop: every name gets in-degree 0 and an empty set of children.\<close>

definition init_tables ::
  "jsstring list \<Rightarrow> (jsstring \<times> int) list \<times> (jsstring \<times> jsstring list) list" where
  "init_tables names =
     fold (\<lambda>n (indeg, children). (map_set indeg n 0, map_set children n [])) names ([], [])"

text \<open>
  The body of the second loop for one class \<open>c\<close> and one of its parents \<open>p\<close>:
  \<open>children.get(p)!.add(c.name)\<close> raises a TypeError when \<open>children\<close> has no entry for \<open>p\<close>.
\<close>

definition link_parent ::
  "(jsstring \<times> ClassDef) list \<Rightarrow> ClassDef \<Rightarrow> jsstring \<Rightarrow>
   (jsstring \<times> int) list \<times> (jsstring \<times> jsstring list) list \<Rightarrow>
   error + (jsstring \<times> int) list \<times> (jsstring \<times> jsstring list) list" where
  "link_parent classes c p st =
     (case st of (indeg, children) \<Rightarrow>
        if \<not> map_has classes p then Inr (indeg, children)
        else
          (case map_get children p of
             None \<Rightarrow> Inl TypeError
           | Some s \<Rightarrow>
               Inr (map_set indeg (name c) (num_get indeg (name c) + 1),
                    map_set children p (set_add s (name c)))))"

text \<open>A \<open>for\<close> loop whose body may raise: the first error ends the loop.\<close>

fun foldE :: "('a \<Rightarrow> 's \<Rightarrow> error + 's) \<Rightarrow> 'a list \<Rightarrow> 's \<Rightarrow> error + 's" where
  "foldE f [] s = Inr s"
| "foldE f (x # xs) s = (case f x s of Inl e \<Rightarrow> Inl e | Inr s' \<Rightarrow> foldE f xs s')"

definition link_all ::
  "(jsstring \<times> ClassDef) list \<Rightarrow>
   (jsstring \<times> int) list \<times> (jsstring \<times> jsstring list) list \<Rightarrow>
   error + (jsstring \<times> int) list \<times> (jsstring \<times> jsstring list) list" where
  "link_all classes st =
     foldE (\<lambda>c. foldE (link_parent classes c) (parents c)) (map_values classes) st"

text \<open>The body of the inner loop of the queue phase, for one child \<open>ch\<close>.\<close>

definition visit_child ::
  "jsstring \<Rightarrow> (jsstring \<times> int) list \<times> jsstring list \<Rightarrow>
   (jsstring \<times> int) list \<times> jsstring list" where
  "visit_child ch st =
     (case st of (indeg, q) \<Rightarrow>
        (let indeg' = map_set indeg ch (num_get indeg ch - 1)
         in if num_get indeg' ch = 0 then (indeg', q @ [ch]) else (indeg', q)))"

text \<open>
  The queue phase always ends: every step removes the head of the queue, and a child is
  only appended when its in-degree falls from 1 to 0, so the length of the queue plus the
  number of entries with positive in-degree goes down with every step.
\<close>

definition positive_count :: "(jsstring \<times> int) list \<Rightarrow> nat" where
  "positive_count indeg = length (filter (\<lambda>kv. 0 < snd kv) indeg)"

lemma num_get_map_set_same: "num_get (map_set m k v) k = v"
  by (induction m) (auto simp: num_get_def)

lemma positive_count_map_set:
  "positive_count (map_set m k v) + (if 0 < num_get m k then 1 else 0) =
   positive_count m + (if 0 < v then 1 else 0)"
  by (induction m) (auto simp: num_get_def positive_count_def)

lemma visit_child_measure:
  "visit_child ch (indeg, q) = (indeg', q') \<Longrightarrow>
   length q' + positive_count indeg' = length q + positive_count indeg"
  using positive_count_map_set [of indeg ch "num_get indeg ch - 1"]
  by (auto simp: visit_child_def Let_def num_get_map_set_same split: if_splits)

lemma fold_visit_child_measure:
  "fold visit_child chs (indeg, q) = (indeg', q') \<Longrightarrow>
   length q' + positive_count indeg' = length q + positive_count indeg"
proof (induction chs arbitrary: indeg q)
  case Nil
  then show ?case by simp
next
  case (Cons ch chs)
  obtain i1 q1 where s: "visit_child ch (indeg, q) = (i1, q1)"
    by (cases "visit_child ch (indeg, q)")
  with Cons.prems have "fold visit_child chs (i1, q1) = (indeg', q')" by simp
  from Cons.IH [OF this] visit_child_measure [OF s] show ?case by simp
qed

function kahn_loop ::
  "(jsstring \<times> jsstring list) list \<Rightarrow> jsstring list \<Rightarrow> jsstring list \<Rightarrow>
   (jsstring \<times> int) list \<Rightarrow> jsstring list" where
  "kahn_loop children [] out indeg = out"
| "kahn_loop children (n # q) out indeg =
     (case fold visit_child (children_of children n) (indeg, q) of
        (indeg', q') \<Rightarrow> kahn_loop children q' (out @ [n]) indeg')"
  by pat_completeness auto
termination
proof (relation "measure (\<lambda>(children, q, out, indeg). length q + positive_count indeg)",
    goal_cases)
  case 1
  show ?case by simp
next
  case (2 children n q out indeg indeg' q')
  then have "fold visit_child (children_of children n) (indeg, q) = (indeg', q')" by simp
  from fold_visit_child_measure [OF this] show ?case by simp
qed

text \<open>The last loop: every name that is not in the output yet is appended.\<close>

definition append_missing :: "jsstring list \<Rightarrow> jsstring list \<Rightarrow> jsstring list" where
  "append_missing names out = fold (\<lambda>n out. if n \<in> set out then out else out @ [n]) names out"

definition topoSortClasses :: "(jsstring \<times> ClassDef) list \<Rightarrow> error + jsstring list" where
  "topoSortClasses classes =
     (let names = sort (map_keys classes) in
      case link_all classes (init_tables names) of
        Inl e \<Rightarrow> Inl e
      | Inr (indeg, children) \<Rightarrow>
          (let q = filter (\<lambda>n. num_get indeg n = 0) names;
               out = kahn_loop children q [] indeg
           in Inr (append_missing names out)))"

text \<open>
  Invariants used to verify the linearizer. \<open>tables_ok K N\<close>: the table of children has
  an entry for every name in \<open>K\<close>, and every child is in \<open>N\<close>. \<open>queue_ok\<close>: no name is twice in
  the output and the queue together, and the names there have no in-degree left.
\<close>

definition tables_ok :: "jsstring set \<Rightarrow> jsstring set \<Rightarrow> (jsstring \<times> int) list \<times> (jsstring \<times> jsstring list) list \<Rightarrow> bool" where
  "tables_ok K N st = (K \<subseteq> set (map_keys (snd st)) \<and> (\<forall>(p, s) \<in> set (snd st). set s \<subseteq> N))"

definition queue_ok :: "jsstring list \<Rightarrow> jsstring list \<Rightarrow> (jsstring \<times> int) list \<Rightarrow> bool" where
  "queue_ok out q indeg = (distinct (out @ q) \<and> (\<forall>x \<in> set (out @ q). num_get indeg x \<le> 0))"

subsection \<open>Inherited properties\<close>

text \<open>
  \<open>collectAllPropsForClass\<close> walks the parents depth first, with a set of the names seen.
  \<open>walk classes names (seen, out)\<close> is the loop \<open>for (const parent of names) walk(parent)\<close> on
  the sets \<open>seen\<close> and \<open>out\<close> of the closure; the call \<open>walk(clsName)\<close> is the walk of the list
  with the one name. The recursion is nested: the walk of the rest goes on from the state
  the walk of the parents has left. It ends because every call that goes down adds a new
  name to \<open>seen\<close>, and no name outside the mapping and its lists of parents is ever met.
\<close>

definition all_parents :: "(jsstring \<times> ClassDef) list \<Rightarrow> jsstring set" where
  "all_parents classes = \<Union> (set ` parents ` snd ` set classes)"

lemma map_get_in_values: "map_get m k = Some v \<Longrightarrow> v \<in> snd ` set m"
  by (induction m) (auto split: if_splits)

function walk ::
  "(jsstring \<times> ClassDef) list \<Rightarrow> jsstring list \<Rightarrow> jsstring list \<times> jsstring list \<Rightarrow>
   jsstring list \<times> jsstring list" where
  "walk classes [] st = st"
| "walk classes (n # rest) (seen, out) =
     walk classes rest
       (if n \<in> set seen then (seen, out)
        else
          (case map_get classes n of
             None \<Rightarrow> (set_add seen n, out)
           | Some cls \<Rightarrow>
               walk classes (parents cls)
                 (set_add seen n, fold (\<lambda>p out. set_add out p) (properties cls) out)))"
  by pat_completeness auto

lemma walk_dom_seen_grows:
  "walk_dom (classes, todo, (seen, out)) \<Longrightarrow>
   set seen \<subseteq> set (fst (walk classes todo (seen, out)))"
proof (induction classes todo "(seen, out)" arbitrary: seen out rule: walk.pinduct)
  case (1 classes st)
  then show ?case by (simp add: walk.psimps)
next
  case (2 classes n rest seen out)
  show ?case
  proof (cases "n \<in> set seen")
    case True
    with 2 show ?thesis by (simp add: walk.psimps)
  next
    case False
    show ?thesis
    proof (cases "map_get classes n")
      case None
      with False 2(1) 2(3) [of "set_add seen n" out] show ?thesis
        by (auto simp: walk.psimps set_add_def)
    next
      case (Some cls)
      let ?s1 = "walk classes (parents cls)
                 (set_add seen n, fold (\<lambda>p out. set_add out p) (properties cls) out)"
      from 2(2) [OF False Some] have a: "set (set_add seen n) \<subseteq> set (fst ?s1)" by simp
      from 2(3) [of "fst ?s1" "snd ?s1"] False Some
      have b: "set (fst ?s1) \<subseteq> set (fst (walk classes rest ?s1))" by simp
      from a b False Some 2(1) show ?thesis
        by (auto simp: walk.psimps set_add_def)
    qed
  qed
qed

termination walk
proof (relation
    "(\<lambda>(classes, todo, seen, out). card ((set todo \<union> all_parents classes) - set seen))
       <*mlex*> measure (\<lambda>(classes, todo, seen, out). length todo)", goal_cases)
  case 1
  show ?case by (simp add: wf_mlex)
next
  case (2 classes n rest seen out cls)
  from map_get_in_values [OF 2(2)] have "set (parents cls) \<subseteq> all_parents classes"
    by (auto simp: all_parents_def)
  then have "card ((set (parents cls) \<union> all_parents classes) - set (set_add seen n))
      < card ((set (n # rest) \<union> all_parents classes) - set seen)"
    by (intro psubset_card_mono) (use 2 in \<open>auto simp: all_parents_def set_add_def\<close>)
  then show ?case by (simp add: mlex_iff)
next
  case (3 classes n rest seen out)
  define st' where "st' = (if n \<in> set seen then (seen, out)
        else
          (case map_get classes n of
             None \<Rightarrow> (set_add seen n, out)
           | Some cls \<Rightarrow>
               walk classes (parents cls)
                 (set_add seen n, fold (\<lambda>p out. set_add out p) (properties cls) out)))"
  have g: "set seen \<subseteq> set (fst st')"
  proof (cases "n \<in> set seen")
    case True
    then show ?thesis by (simp add: st'_def)
  next
    case False
    show ?thesis
    proof (cases "map_get classes n")
      case None
      with False show ?thesis by (auto simp: st'_def set_add_def)
    next
      case (Some cls)
      from 3 [OF False Some]
      have "set (set_add seen n) \<subseteq> set (fst (walk classes (parents cls)
                 (set_add seen n, fold (\<lambda>p out. set_add out p) (properties cls) out)))"
        by (rule walk_dom_seen_grows)
      with False Some show ?thesis by (auto simp: st'_def set_add_def)
    qed
  qed
  obtain seen' out' where p: "st' = (seen', out')" by (cases st')
  have "card ((set rest \<union> all_parents classes) - set seen')
      \<le> card ((set (n # rest) \<union> all_parents classes) - set seen)"
    by (rule card_mono) (use g p in \<open>auto simp: all_parents_def\<close>)
  then have "((classes, rest, seen', out'), (classes, n # rest, seen, out))
      \<in> (\<lambda>(classes, todo, seen, out). card ((set todo \<union> all_parents classes) - set seen))
       <*mlex*> measure (\<lambda>(classes, todo, seen, out). length todo)"
    by (auto simp: mlex_iff)
  then show ?case unfolding p [symmetric] st'_def .
qed

definition collectAllPropsForClass ::
  "jsstring \<Rightarrow> (jsstring \<times> ClassDef) list \<Rightarrow> jsstring list" where
  "collectAllPropsForClass clsName classes = snd (walk classes [clsName] ([], []))"

text \<open>
  The same walk with the call stack made explicit: the names still to be walked, the parents
  of the current class in front of the pending ones. It is equal to \<open>walk\<close> and is the form
  the properties of the closure are proved on.
\<close>

function walk_stack ::
  "(jsstring \<times> ClassDef) list \<Rightarrow> jsstring list \<Rightarrow> jsstring list \<times> jsstring list \<Rightarrow>
   jsstring list \<times> jsstring list" where
  "walk_stack classes [] st = st"
| "walk_stack classes (n # todo) (seen, out) =
     (if n \<in> set seen then walk_stack classes todo (seen, out)
      else
        (case map_get classes n of
           None \<Rightarrow> walk_stack classes todo (set_add seen n, out)
         | Some cls \<Rightarrow>
             walk_stack classes (parents cls @ todo)
               (set_add seen n, fold (\<lambda>p out. set_add out p) (properties cls) out)))"
  by pat_completeness auto
termination
proof (relation
    "(\<lambda>(classes, todo, seen, out). card ((set todo \<union> all_parents classes) - set seen))
       <*mlex*> measure (\<lambda>(classes, todo, seen, out). length todo)", goal_cases)
  case 1
  show ?case by (simp add: wf_mlex)
next
  case (2 classes n todo seen out)
  have "card ((set todo \<union> all_parents classes) - set seen)
      \<le> card ((set (n # todo) \<union> all_parents classes) - set seen)"
    by (rule card_mono) (auto simp: all_parents_def)
  then show ?case by (auto simp: mlex_iff)
next
  case (3 classes n todo seen out)
  have "card ((set todo \<union> all_parents classes) - set (set_add seen n))
      < card ((set (n # todo) \<union> all_parents classes) - set seen)"
    by (rule psubset_card_mono) (use 3 in \<open>auto simp: all_parents_def set_add_def\<close>)
  then show ?case by (simp add: mlex_iff)
next
  case (4 classes n todo seen out cls)
  from map_get_in_values [OF 4(2)] have "set (parents cls) \<subseteq> all_parents classes"
    by (auto simp: all_parents_def)
  then have "card ((set (parents cls @ todo) \<union> all_parents classes) - set (set_add seen n))
      < card ((set (n # todo) \<union> all_parents classes) - set seen)"
    by (intro psubset_card_mono) (use 4 in \<open>auto simp: all_parents_def set_add_def\<close>)
  then show ?case by (simp add: mlex_iff)
qed

subsection \<open>Emitter\<close>

text \<open>
  \<open>JSON.stringify\<close> applied to a string is a function of the runtime, not of this
  repository: the emitter takes it as the parameter \<open>stringify\<close>.
\<close>

definition nl :: jsstring where
  "nl = [0x0A]"

definition classIdentTable :: "jsstring list \<Rightarrow> (jsstring \<times> jsstring) list" where
  "classIdentTable sortedSchemaNames =
     fold (\<lambda>schemaName m. map_set m schemaName (toTsIdent schemaName)) sortedSchemaNames []"

text \<open>\<open>xs.filter(Boolean)\<close> on looked-up strings: \<open>undefined\<close> and the empty string go.\<close>

fun truthy :: "jsstring option list \<Rightarrow> jsstring list" where
  "truthy [] = []"
| "truthy (None # xs) = truthy xs"
| "truthy (Some s # xs) = (if s = [] then truthy xs else s # truthy xs)"

text \<open>
  The body of the loop over \<open>allProps\<close>: a property without a \<open>PropDef\<close> is skipped, every
  other one gets a field, given here as the pair of its name and its type.
\<close>

fun interfaceFields ::
  "(jsstring \<times> PropDef) list \<Rightarrow> (jsstring \<times> jsstring) list \<Rightarrow> jsstring list \<Rightarrow>
   (jsstring \<times> jsstring) list" where
  "interfaceFields props classIdentByName [] = []"
| "interfaceFields props classIdentByName (propName # allProps) =
     (case map_get props propName of
        None \<Rightarrow> interfaceFields props classIdentByName allProps
      | Some prop \<Rightarrow>
          (propName, propToTs prop classIdentByName)
            # interfaceFields props classIdentByName allProps)"

text \<open>
  The body of the loop that emits the interfaces, for one class. \<open>classes.get(schemaName)!\<close>
  followed by \<open>cls.parents\<close> raises a TypeError for a name that is not in the mapping; an
  identifier missing from the table would be printed as \<open>undefined\<close>. \<open>interfaceHead\<close> is
  the two lines pushed first (the identifier, the clause of the parents and the \<open>@type\<close>
  field), \<open>fieldLine\<close> the line pushed for one property.
\<close>

definition interfaceHead ::
  "(jsstring \<Rightarrow> jsstring) \<Rightarrow> (jsstring \<times> ClassDef) list \<Rightarrow> (jsstring \<times> jsstring) list \<Rightarrow>
   jsstring \<Rightarrow> ClassDef \<Rightarrow> jsstring list" where
  \<open>interfaceHead stringify classes classIdentByName schemaName cls =
     (let ident = (case map_get classIdentByName schemaName of
                     Some i \<Rightarrow> i
                   | None \<Rightarrow> js ''undefined'');
          parentSchemaNames = filter (map_has classes) (parents cls);
          parentIdents = truthy (map (map_get classIdentByName) parentSchemaNames);
          extendsClause =
            (if length parentIdents > 0
             then js '' extends JsonLdCore, '' @ join (js '', '') parentIdents
             else js '' extends JsonLdCore'')
      in [js ''export interface '' @ ident @ extendsClause @ js '' {'',
          js ''  "@type"?: '' @ stringify schemaName @ js '' | (string & {});''])\<close>

definition fieldLine :: "(jsstring \<Rightarrow> jsstring) \<Rightarrow> jsstring \<Rightarrow> jsstring \<Rightarrow> jsstring" where
  "fieldLine stringify propName tsType =
     js ''  '' @ stringify propName @ js ''?: '' @ tsType @ js '';''"

definition emitInterface ::
  "(jsstring \<Rightarrow> jsstring) \<Rightarrow> (jsstring \<times> ClassDef) list \<Rightarrow> (jsstring \<times> PropDef) list \<Rightarrow>
   (jsstring \<times> jsstring) list \<Rightarrow> jsstring \<Rightarrow> error + jsstring" where
  "emitInterface stringify classes props classIdentByName schemaName =
     (case map_get classes schemaName of
        None \<Rightarrow> Inl TypeError
      | Some cls \<Rightarrow>
          (let allProps = sort (collectAllPropsForClass schemaName classes);
               lines =
                 interfaceHead stringify classes classIdentByName schemaName cls
                 @ map (\<lambda>(propName, tsType). fieldLine stringify propName tsType)
                     (interfaceFields props classIdentByName allProps)
                 @ [js ''}'' @ nl]
           in Inr (join nl lines)))"

fun mapE :: "('a \<Rightarrow> error + 'b) \<Rightarrow> 'a list \<Rightarrow> error + 'b list" where
  "mapE f [] = Inr []"
| "mapE f (x # xs) =
     (case f x of
        Inl e \<Rightarrow> Inl e
      | Inr y \<Rightarrow> (case mapE f xs of Inl e \<Rightarrow> Inl e | Inr ys \<Rightarrow> Inr (y # ys)))"

definition header :: jsstring where
  \<open>header = join nl
     [js ''/* eslint-disable */'',
      js ''// AUTO-GENERATED FILE. DO NOT EDIT.'',
      [],
      js ''export type SchemaContext = "https://schema.org" | (string & {});'',
      js ''export type WithContext<T> = T & { "@context": SchemaContext };'',
      [],
      js ''export type JsonLdCore = {'',
      js ''  "@context"?: SchemaContext;'',
      js ''  "@type"?: string;'',
      js ''  "@id"?: string;'',
      js ''};'',
      [],
      []]\<close>

text \<open>
  The three blocks after the interfaces: the union of the class names, the table from
  class name to type and the table from class name to identifier.
  \<open>JSON.stringify(undefined)\<close> is \<open>undefined\<close>, printed as such.
\<close>

definition trailerBlocks ::
  "(jsstring \<Rightarrow> jsstring) \<Rightarrow> (jsstring \<times> jsstring) list \<Rightarrow> jsstring list \<Rightarrow> jsstring list" where
  \<open>trailerBlocks stringify classIdentByName sortedSchemaNames =
     (let typeNamesUnion = join (js '' | '') (map stringify sortedSchemaNames);
          mapEntries = join nl
            (map (\<lambda>schemaName.
                    js ''  '' @ stringify schemaName @ js '': ''
                    @ (case map_get classIdentByName schemaName of
                         Some i \<Rightarrow> i
                       | None \<Rightarrow> js ''undefined'')
                    @ js '';'')
               sortedSchemaNames);
          nameToIdentEntries = join nl
            (map (\<lambda>schemaName.
                    js ''  '' @ stringify schemaName @ js '': ''
                    @ (case map_get classIdentByName schemaName of
                         Some i \<Rightarrow> stringify i
                       | None \<Rightarrow> js ''undefined'')
                    @ js '','')
               sortedSchemaNames)
      in [js ''export type SchemaTypeName = '' @ typeNamesUnion @ js '';'' @ nl,
          js ''export type SchemaTypeMap = {'' @ nl @ mapEntries @ nl @ js ''};'' @ nl,
          js ''export const __SCHEMA_NAME_TO_TS_IDENT__ = {'' @ nl @ nameToIdentEntries @ nl
            @ js ''} as const;'' @ nl])\<close>

definition generateTs ::
  "(jsstring \<Rightarrow> jsstring) \<Rightarrow> (jsstring \<times> ClassDef) list \<times> (jsstring \<times> PropDef) list \<Rightarrow>
   error + jsstring" where
  "generateTs stringify g =
     (case g of (classes, props) \<Rightarrow>
        (case topoSortClasses classes of
           Inl e \<Rightarrow> Inl e
         | Inr sortedSchemaNames \<Rightarrow>
             (let classIdentByName = classIdentTable sortedSchemaNames
              in case mapE (emitInterface stringify classes props classIdentByName)
                        sortedSchemaNames of
                   Inl e \<Rightarrow> Inl e
                 | Inr interfaces \<Rightarrow>
                     (let blocks = [header] @ interfaces
                            @ trailerBlocks stringify classIdentByName sortedSchemaNames
                      in Inr (join nl blocks)))))"

subsection \<open>Triple store adapter and graph extractor\<close>

text \<open>
  The terms of the RDF data model: \<open>termType\<close> is one of six strings, \<open>value\<close> is a string.
  \<open>Store.getQuads\<close> belongs to the store library; the extractor takes it as the parameter
  \<open>getQuads\<close>, which returns the quads that match a subject, a predicate, an object and a
  graph (\<open>None\<close> for \<open>null\<close>) in the order the store iterates them.
\<close>

datatype TermType = NamedNode | Literal | BlankNode | Variable | DefaultGraph | QuadTerm

record Term =
  termType :: TermType
  term_value :: jsstring

record Quad =
  subject :: Term
  predicate :: Term
  object :: Term
  graph :: Term

type_synonym getQuads =
  "jsstring option \<Rightarrow> jsstring option \<Rightarrow> jsstring option \<Rightarrow> jsstring option \<Rightarrow> Quad list"

definition isNamedNode :: "Term \<Rightarrow> bool" where
  "isNamedNode v = (termType v = NamedNode)"

definition isLiteral :: "Term \<Rightarrow> bool" where
  "isLiteral v = (termType v = Literal)"

definition getObjects :: "getQuads \<Rightarrow> jsstring \<Rightarrow> jsstring \<Rightarrow> jsstring list" where
  "getObjects getQuads s p =
     filter (\<lambda>v. v \<noteq> [])
       (map (\<lambda>q. if isNamedNode (object q) \<or> isLiteral (object q)
                  then term_value (object q) else [])
          (getQuads (Some s) (Some p) None None))"

definition NS_rdf :: jsstring where
  "NS_rdf = js ''http://www.w3.org/1999/02/22-rdf-syntax-ns#''"

definition NS_rdfs :: jsstring where
  "NS_rdfs = js ''http://www.w3.org/2000/01/rdf-schema#''"

definition NS_schema :: jsstring where
  "NS_schema = js ''https://schema.org/''"

definition IRI_rdfType :: jsstring where
  "IRI_rdfType = NS_rdf @ js ''type''"

definition IRI_rdfProperty :: jsstring where
  "IRI_rdfProperty = NS_rdf @ js ''Property''"

definition IRI_rdfsClass :: jsstring where
  "IRI_rdfsClass = NS_rdfs @ js ''Class''"

definition IRI_rdfsSubClassOf :: jsstring where
  "IRI_rdfsSubClassOf = NS_rdfs @ js ''subClassOf''"

definition IRI_schemaDomainIncludes :: jsstring where
  "IRI_schemaDomainIncludes = NS_schema @ js ''domainIncludes''"

definition IRI_schemaRangeIncludes :: jsstring where
  "IRI_schemaRangeIncludes = NS_schema @ js ''rangeIncludes''"

definition iriToLocalName :: "jsstring \<Rightarrow> jsstring option" where
  "iriToLocalName i =
     (if take (length NS_schema) i = NS_schema then Some (drop (length NS_schema) i) else None)"

text \<open>
  The tests \<open>if (!local) continue\<close> and \<open>if (pName && ...)\<close>: \<open>null\<close> and the empty string are
  both skipped.
\<close>

definition localName :: "jsstring \<Rightarrow> jsstring option" where
  "localName i =
     (case iriToLocalName i of
        None \<Rightarrow> None
      | Some l \<Rightarrow> if l = [] then None else Some l)"

text \<open>The five loops of \<open>buildGraph\<close>, named as in the specification.\<close>

definition collectClasses :: "getQuads \<Rightarrow> (jsstring \<times> ClassDef) list" where
  "collectClasses getQuads =
     fold (\<lambda>q classes.
             if \<not> isNamedNode (subject q) then classes
             else
               (case localName (term_value (subject q)) of
                  None \<Rightarrow> classes
                | Some l \<Rightarrow>
                    map_set classes l
                      \<lparr>name = l, iri = term_value (subject q), parents = [], properties = []\<rparr>))
       (getQuads None (Some IRI_rdfType) (Some IRI_rdfsClass) None) []"

definition collectProperties :: "getQuads \<Rightarrow> (jsstring \<times> PropDef) list" where
  "collectProperties getQuads =
     fold (\<lambda>q props.
             if \<not> isNamedNode (subject q) then props
             else
               (case localName (term_value (subject q)) of
                  None \<Rightarrow> props
                | Some l \<Rightarrow>
                    map_set props l
                      \<lparr>prop_name = l, prop_iri = term_value (subject q), domains = [],
                       ranges = []\<rparr>))
       (getQuads None (Some IRI_rdfType) (Some IRI_rdfProperty) None) []"

definition resolveSubclassing ::
  "getQuads \<Rightarrow> (jsstring \<times> ClassDef) list \<Rightarrow> (jsstring \<times> ClassDef) list" where
  "resolveSubclassing getQuads classes =
     map (\<lambda>(k, cls).
            (k, cls\<lparr>parents := parents cls
                   @ filter (map_has classes)
                       (List.map_filter localName
                          (getObjects getQuads (iri cls) IRI_rdfsSubClassOf))\<rparr>))
       classes"

definition resolveDomainsAndRanges ::
  "getQuads \<Rightarrow> (jsstring \<times> PropDef) list \<Rightarrow> (jsstring \<times> PropDef) list" where
  "resolveDomainsAndRanges getQuads props =
     map (\<lambda>(k, prop).
            (k, prop\<lparr>domains := domains prop
                    @ List.map_filter localName
                        (getObjects getQuads (prop_iri prop) IRI_schemaDomainIncludes),
                  ranges := ranges prop
                    @ List.map_filter localName
                        (getObjects getQuads (prop_iri prop) IRI_schemaRangeIncludes)\<rparr>))
       props"

definition attachProperty ::
  "PropDef \<Rightarrow> jsstring \<Rightarrow> (jsstring \<times> ClassDef) list \<Rightarrow> (jsstring \<times> ClassDef) list" where
  "attachProperty prop d classes =
     (case map_get classes d of
        None \<Rightarrow> classes
      | Some cls \<Rightarrow>
          map_set classes d (cls\<lparr>properties := set_add (properties cls) (prop_name prop)\<rparr>))"

definition propagatePropertiesToClasses ::
  "(jsstring \<times> PropDef) list \<Rightarrow> (jsstring \<times> ClassDef) list \<Rightarrow> (jsstring \<times> ClassDef) list" where
  "propagatePropertiesToClasses props classes =
     fold (\<lambda>prop. fold (attachProperty prop) (domains prop)) (map_values props) classes"

definition buildGraph ::
  "getQuads \<Rightarrow> (jsstring \<times> ClassDef) list \<times> (jsstring \<times> PropDef) list" where
  "buildGraph getQuads =
     (let classes = collectClasses getQuads;
          props = collectProperties getQuads;
          classes = resolveSubclassing getQuads classes;
          props = resolveDomainsAndRanges getQuads props;
          classes = propagatePropertiesToClasses props classes
      in (classes, props))"

section \<open>The React helper\<close>

text \<open>
  \<open>JSON.stringify\<close> on an arbitrary value is the runtime's: it returns a string, returns
  \<open>undefined\<close> (for \<open>undefined\<close>, a function or a symbol), or throws. It is the parameter
  \<open>stringify\<close>, with \<open>Inl\<close> for an exception and \<open>None\<close> for \<open>undefined\<close>. Calling \<open>replace\<close>
  on \<open>undefined\<close> raises a TypeError.
\<close>

definition safeJsonLdStringify :: "('v \<Rightarrow> error + jsstring option) \<Rightarrow> 'v \<Rightarrow> error + jsstring" where
  "safeJsonLdStringify stringify v =
     (case stringify v of
        Inl e \<Rightarrow> Inl e
      | Inr None \<Rightarrow> Inl TypeError
      | Inr (Some json) \<Rightarrow>
          Inr (replaceAll (\<lambda>c. c = 0x2029) (0x5C # js ''u2029'')
                (replaceAll (\<lambda>c. c = 0x2028) (0x5C # js ''u2028'')
                  (replaceAll (\<lambda>c. c = 0x26) (0x5C # js ''u0026'')
                    (replaceAll (\<lambda>c. c = 0x3E) (0x5C # js ''u003e'')
                      (replaceAll (\<lambda>c. c = 0x3C) (0x5C # js ''u003c'') json))))))"

section \<open>Notions of the specification and fixtures\<close>

text \<open>
  What the specification calls a valid identifier of the target language. The identifier
  is emitted as the name of an interface in a module, so the reserved words are those of
  the target language there: the reserved words of ECMAScript in the strict code of a
  module, \<open>await\<close> among them, and the predefined type names that TypeScript refuses as the
  name of an interface.
\<close>

definition reservedWords :: "jsstring list" where
  "reservedWords = map js
     [''await'', ''break'', ''case'', ''catch'', ''class'', ''const'', ''continue'',
      ''debugger'', ''default'', ''delete'', ''do'', ''else'', ''enum'', ''export'',
      ''extends'', ''false'', ''finally'', ''for'', ''function'', ''if'', ''import'', ''in'',
      ''instanceof'', ''new'', ''null'', ''return'', ''super'', ''switch'', ''this'',
      ''throw'', ''true'', ''try'', ''typeof'', ''var'', ''void'', ''while'', ''with'',
      ''yield'', ''implements'', ''interface'', ''let'', ''package'', ''private'',
      ''protected'', ''public'', ''static'', ''any'', ''unknown'', ''never'', ''number'',
      ''bigint'', ''boolean'', ''string'', ''symbol'', ''object'', ''undefined'']"

definition validTsIdent :: "jsstring \<Rightarrow> bool" where
  "validTsIdent s = (matchesIdentifier s \<and> s \<notin> set reservedWords)"


definition scalarType :: "jsstring \<Rightarrow> jsstring option" where
  "scalarType r =
     (if r \<in> set (map js [''Text'', ''URL'', ''Date'', ''DateTime'', ''Time''])
      then Some (js ''string'')
      else if r = js ''Boolean'' then Some (js ''boolean'')
      else if r \<in> set (map js [''Number'', ''Integer'', ''Float'']) then Some (js ''number'')
      else None)"

definition generatedClassType :: "(jsstring \<times> jsstring) list \<Rightarrow> jsstring \<Rightarrow> jsstring" where
  "generatedClassType classIdentByName r =
     (case map_get classIdentByName r of Some i \<Rightarrow> i | None \<Rightarrow> toTsIdent r)"

definition textProp :: PropDef where
  "textProp = \<lparr>prop_name = js ''name'', prop_iri = js ''https://schema.org/name'',
               domains = [js ''Person''], ranges = [js ''Text'']\<rparr>"

definition noRangeProp :: PropDef where
  "noRangeProp = \<lparr>prop_name = js ''thing'', prop_iri = js ''https://schema.org/thing'',
                  domains = [js ''Person''], ranges = []\<rparr>"

text \<open>
  The values the specification promises from \<open>getObjects\<close>: the value of every matching quad
  whose object is a named node or a literal.
\<close>

definition namedOrLiteralValues :: "Quad list \<Rightarrow> jsstring list" where
  "namedOrLiteralValues quads =
     map (\<lambda>q. term_value (object q))
       (filter (\<lambda>q. isNamedNode (object q) \<or> isLiteral (object q)) quads)"

text \<open>A store for the fixtures: a list of quads, matched on the values of the terms.\<close>

fun matches :: "jsstring option \<Rightarrow> Term \<Rightarrow> bool" where
  "matches None t = True"
| "matches (Some v) t = (term_value t = v)"

definition listStore :: "Quad list \<Rightarrow> getQuads" where
  "listStore quads s p ob g =
     filter (\<lambda>q. matches s (subject q) \<and> matches p (predicate q) \<and> matches ob (object q)
               \<and> matches g (graph q)) quads"

definition namedNode :: "jsstring \<Rightarrow> Term" where
  "namedNode v = \<lparr>termType = NamedNode, term_value = v\<rparr>"

definition defaultGraph :: Term where
  "defaultGraph = \<lparr>termType = DefaultGraph, term_value = []\<rparr>"

text \<open>
  Three comments of one class: a literal with the empty value, a blank node and a literal.
\<close>

definition commentQuads :: "Quad list" where
  "commentQuads =
     [\<lparr>subject = namedNode (js ''https://schema.org/Thing''),
       predicate = namedNode (NS_rdfs @ js ''comment''),
       object = \<lparr>termType = Literal, term_value = []\<rparr>, graph = defaultGraph\<rparr>,
      \<lparr>subject = namedNode (js ''https://schema.org/Thing''),
       predicate = namedNode (NS_rdfs @ js ''comment''),
       object = \<lparr>termType = BlankNode, term_value = js ''b0''\<rparr>, graph = defaultGraph\<rparr>,
      \<lparr>subject = namedNode (js ''https://schema.org/Thing''),
       predicate = namedNode (NS_rdfs @ js ''comment''),
       object = \<lparr>termType = Literal, term_value = js ''thing''\<rparr>, graph = defaultGraph\<rparr>]"

text \<open>The escape of one code unit in \<open>safeJsonLdStringify\<close>.\<close>

definition escapeUnit :: "jschar \<Rightarrow> jsstring" where
  "escapeUnit c =
     (if c = 0x3C then 0x5C # js ''u003c''
      else if c = 0x3E then 0x5C # js ''u003e''
      else if c = 0x26 then 0x5C # js ''u0026''
      else if c = 0x2028 then 0x5C # js ''u2028''
      else if c = 0x2029 then 0x5C # js ''u2029''
      else [c])"

text \<open>A serializer that returns a string with a closing script tag for every value.\<close>

definition scriptStringify :: "unit \<Rightarrow> error + jsstring option" where
  \<open>scriptStringify v = Inr (Some (js ''"</script>&'' @ [0x2028, 0x2029, 0x22]))\<close>

text \<open>
  The edges from a class to the parents it lists, the classes reachable over them (the
  class itself and its transitively resolvable ancestors; a name without a class
  contributes nothing), and the properties declared by a set of classes.
\<close>

definition parentEdges :: "(jsstring \<times> ClassDef) list \<Rightarrow> (jsstring \<times> jsstring) set" where
  "parentEdges classes = {(n, p). \<exists>cls. map_get classes n = Some cls \<and> p \<in> set (parents cls)}"

definition ancestorsOrSelf :: "(jsstring \<times> ClassDef) list \<Rightarrow> jsstring \<Rightarrow> jsstring set" where
  "ancestorsOrSelf classes c = (parentEdges classes)\<^sup>* `` {c}"

definition propertiesOf :: "(jsstring \<times> ClassDef) list \<Rightarrow> jsstring set \<Rightarrow> jsstring set" where
  "propertiesOf classes ns = {p. \<exists>n cls. n \<in> ns \<and> map_get classes n = Some cls \<and> p \<in> set (properties cls)}"

text \<open>
  The declaration of a class as the specification describes it: after the head, one
  optional field for every property in the union of the properties the class declares
  itself and those declared by its transitively resolvable ancestors, each name once, in
  the order of the names, with the type the type mapper gives the property.
\<close>

definition declaredFields ::
  "(jsstring \<times> ClassDef) list \<Rightarrow> (jsstring \<times> PropDef) list \<Rightarrow> (jsstring \<times> jsstring) list \<Rightarrow>
   jsstring \<Rightarrow> (jsstring \<times> jsstring) list" where
  "declaredFields classes props tbl c =
     concat (map (\<lambda>n. case map_get props n of
                          Some pd \<Rightarrow> [(n, propToTs pd tbl)]
                        | None \<Rightarrow> [])
               (sorted_list_of_set (propertiesOf classes (ancestorsOrSelf classes c))))"

definition declaredInterface ::
  "(jsstring \<Rightarrow> jsstring) \<Rightarrow> (jsstring \<times> ClassDef) list \<Rightarrow> (jsstring \<times> PropDef) list \<Rightarrow>
   (jsstring \<times> jsstring) list \<Rightarrow> jsstring \<Rightarrow> jsstring" where
  "declaredInterface stringify classes props tbl c =
     (case map_get classes c of
        None \<Rightarrow> []
      | Some cls \<Rightarrow>
          join nl (interfaceHead stringify classes tbl c cls
                   @ map (\<lambda>(n, t). fieldLine stringify n t) (declaredFields classes props tbl c)
                   @ [js ''}'' @ nl]))"

text \<open>
  The graphs the extractor builds: the class mapping and the property mapping are maps,
  every definition is stored under its own name, every parent is a class, and every
  declared property of a class has a \<open>PropDef\<close>.
\<close>

definition class_ok :: "jsstring set \<Rightarrow> jsstring set \<Rightarrow> jsstring \<times> ClassDef \<Rightarrow> bool" where
  "class_ok K P kc = (name (snd kc) = fst kc \<and> set (parents (snd kc)) \<subseteq> K
     \<and> set (properties (snd kc)) \<subseteq> P \<and> distinct (properties (snd kc)))"

definition graph_ok :: "(jsstring \<times> ClassDef) list \<times> (jsstring \<times> PropDef) list \<Rightarrow> bool" where
  "graph_ok g = (case g of (classes, props) \<Rightarrow>
     is_Map classes \<and> is_Map props
     \<and> list_all (class_ok (set (map_keys classes)) (set (map_keys props))) classes
     \<and> list_all (\<lambda>kp. prop_name (snd kp) = fst kp) props)"

text \<open>
  The minimal fixture of the specification: the classes \<open>Thing\<close> and \<open>Person\<close> (a subclass
  of \<open>Thing\<close>) and the property \<open>name\<close> with domain \<open>Person\<close> and range \<open>Text\<close>, as triples
  and as the graph extracted from them. \<open>quoted\<close> is \<open>JSON.stringify\<close> on a string that needs
  no escape.
\<close>

definition triple :: "jsstring \<Rightarrow> jsstring \<Rightarrow> jsstring \<Rightarrow> Quad" where
  "triple s p ob = \<lparr>subject = namedNode s, predicate = namedNode p, object = namedNode ob,
                    graph = defaultGraph\<rparr>"

definition thingPersonQuads :: "Quad list" where
  "thingPersonQuads =
     [triple (NS_schema @ js ''Thing'') IRI_rdfType IRI_rdfsClass,
      triple (NS_schema @ js ''Person'') IRI_rdfType IRI_rdfsClass,
      triple (NS_schema @ js ''Person'') IRI_rdfsSubClassOf (NS_schema @ js ''Thing''),
      triple (NS_schema @ js ''name'') IRI_rdfType IRI_rdfProperty,
      triple (NS_schema @ js ''name'') IRI_schemaDomainIncludes (NS_schema @ js ''Person''),
      triple (NS_schema @ js ''name'') IRI_schemaRangeIncludes (NS_schema @ js ''Text'')]"

definition quoted :: "jsstring \<Rightarrow> jsstring" where
  "quoted s = [0x22] @ s @ [0x22]"

definition thingPersonClasses :: "(jsstring \<times> ClassDef) list" where
  "thingPersonClasses =
     [(js ''Thing'', \<lparr>name = js ''Thing'', iri = js ''https://schema.org/Thing'',
                      parents = [], properties = []\<rparr>),
      (js ''Person'', \<lparr>name = js ''Person'', iri = js ''https://schema.org/Person'',
                       parents = [js ''Thing''], properties = [js ''name'']\<rparr>)]"

definition thingPersonProps :: "(jsstring \<times> PropDef) list" where
  "thingPersonProps =
     [(js ''name'', \<lparr>prop_name = js ''name'', prop_iri = js ''https://schema.org/name'',
                     domains = [js ''Person''], ranges = [js ''Text'']\<rparr>)]"

text \<open>
  A fixture in which inheritance shows: \<open>Thing\<close> declares the property \<open>url\<close>, and \<open>Person\<close>,
  a subclass of \<open>Thing\<close>, declares \<open>name\<close>.
\<close>

definition inheritQuads :: "Quad list" where
  "inheritQuads =
     [triple (NS_schema @ js ''Thing'') IRI_rdfType IRI_rdfsClass,
      triple (NS_schema @ js ''Person'') IRI_rdfType IRI_rdfsClass,
      triple (NS_schema @ js ''Person'') IRI_rdfsSubClassOf (NS_schema @ js ''Thing''),
      triple (NS_schema @ js ''name'') IRI_rdfType IRI_rdfProperty,
      triple (NS_schema @ js ''url'') IRI_rdfType IRI_rdfProperty,
      triple (NS_schema @ js ''name'') IRI_schemaDomainIncludes (NS_schema @ js ''Person''),
      triple (NS_schema @ js ''name'') IRI_schemaRangeIncludes (NS_schema @ js ''Text''),
      triple (NS_schema @ js ''url'') IRI_schemaDomainIncludes (NS_schema @ js ''Thing''),
      triple (NS_schema @ js ''url'') IRI_schemaRangeIncludes (NS_schema @ js ''URL'')]"

definition inheritClasses :: "(jsstring \<times> ClassDef) list" where
  "inheritClasses =
     [(js ''Thing'', \<lparr>name = js ''Thing'', iri = js ''https://schema.org/Thing'',
                      parents = [], properties = [js ''url'']\<rparr>),
      (js ''Person'', \<lparr>name = js ''Person'', iri = js ''https://schema.org/Person'',
                       parents = [js ''Thing''], properties = [js ''name'']\<rparr>)]"

definition inheritProps :: "(jsstring \<times> PropDef) list" where
  "inheritProps =
     [(js ''name'', \<lparr>prop_name = js ''name'', prop_iri = js ''https://schema.org/name'',
                     domains = [js ''Person''], ranges = [js ''Text'']\<rparr>),
      (js ''url'', \<lparr>prop_name = js ''url'', prop_iri = js ''https://schema.org/url'',
                    domains = [js ''Thing''], ranges = [js ''URL'']\<rparr>)]"


text \<open>The class mapping with the 2-cycle \<open>A \<rightarrow> B \<rightarrow> A\<close>.\<close>

definition two_cycle :: "(jsstring \<times> ClassDef) list" where
  "two_cycle =
     [(js ''A'', \<lparr>name = js ''A'', iri = js ''https://schema.org/A'',
                  parents = [js ''B''], properties = []\<rparr>),
      (js ''B'', \<lparr>name = js ''B'', iri = js ''https://schema.org/B'',
                  parents = [js ''A''], properties = []\<rparr>)]"













definition repeatedParent :: "(jsstring \<times> ClassDef) list" where
  "repeatedParent =
     [(js ''P'', \<lparr>name = js ''P'', iri = js ''https://schema.org/P'',
                  parents = [], properties = []\<rparr>),
      (js ''Z'', \<lparr>name = js ''Z'', iri = js ''https://schema.org/Z'',
                  parents = [js ''P'', js ''P''], properties = []\<rparr>),
      (js ''D'', \<lparr>name = js ''D'', iri = js ''https://schema.org/D'',
                  parents = [js ''Z''], properties = []\<rparr>)]"

section \<open>Properties\<close>

subsection \<open>Strings, sets and maps\<close>

lemma set_new_Set_aux: "set (fold (\<lambda>x s. set_add s x) xs acc) = set acc \<union> set xs"
  by (induction xs arbitrary: acc) (auto simp: set_add_def)

lemma distinct_new_Set_aux: "distinct acc \<Longrightarrow> distinct (fold (\<lambda>x s. set_add s x) xs acc)"
  by (induction xs arbitrary: acc) (auto simp: set_add_def)

lemma set_new_Set: "set (new_Set xs) = set xs"
  by (simp add: new_Set_def set_new_Set_aux)

lemma distinct_new_Set: "distinct (new_Set xs)"
  by (simp add: new_Set_def distinct_new_Set_aux)

lemma map_get_None_iff: "map_get m k = None \<longleftrightarrow> k \<notin> set (map_keys m)"
  by (induction m) (auto simp: map_keys_def split: if_splits)

lemma map_has_iff: "map_has m k \<longleftrightarrow> k \<in> set (map_keys m)"
  by (simp add: map_has_def map_get_None_iff)

lemma map_get_Some_mem: "map_get m k = Some v \<Longrightarrow> (k, v) \<in> set m"
  by (induction m) (auto split: if_splits)


lemma map_keys_map_set_list:
  "map_keys (map_set m k v) = (if k \<in> set (map_keys m) then map_keys m else map_keys m @ [k])"
  by (induction m) (force simp: map_keys_def)+

lemma map_keys_map_set: "set (map_keys (map_set m k v)) = insert k (set (map_keys m))"
  by (auto simp: map_keys_map_set_list)

lemma map_get_map_set: "map_get (map_set m k v) k' = (if k' = k then Some v else map_get m k')"
  by (induction m) auto

lemma num_get_map_set: "num_get (map_set m k v) k' = (if k' = k then v else num_get m k')"
  by (simp add: num_get_def map_get_map_set)

lemma set_map_set_subset: "set (map_set m k v) \<subseteq> insert (k, v) (set m)"
  by (induction m) (auto split: if_splits)

lemma foldE_invariant:
  assumes "\<And>x s. x \<in> set xs \<Longrightarrow> I s \<Longrightarrow> \<exists>s'. f x s = Inr s' \<and> I s'"
    and "I s"
  shows "\<exists>s'. foldE f xs s = Inr s' \<and> I s'"
  using assms
proof (induction xs arbitrary: s)
  case Nil
  then show ?case by simp
next
  case (Cons x xs)
  from Cons.prems obtain s1 where s1: "f x s = Inr s1" "I s1" by (meson list.set_intros(1))
  have "\<exists>s'. foldE f xs s1 = Inr s' \<and> I s'"
    by (rule Cons.IH) (use Cons.prems s1 in auto)
  with s1 show ?case by simp
qed

subsection \<open>Topological linearizer\<close>

text \<open>
  The tables after the first two loops: \<open>children\<close> has an entry for every key of the class
  mapping, so the second loop never raises, and the sets of children only hold class names.
\<close>

lemma init_tables_aux:
  "fold (\<lambda>n (indeg, children). (map_set indeg n 0, map_set children n [])) names (indeg, children) = (i', c')
   \<Longrightarrow> set (map_keys c') = set (map_keys children) \<union> set names \<and> (\<forall>(p, s) \<in> set c'. (p, s) \<in> set children \<or> s = [])"
proof (induction names arbitrary: indeg children)
  case Nil
  then show ?case by auto
next
  case (Cons n names)
  from Cons.prems have "fold (\<lambda>n (indeg, children). (map_set indeg n 0, map_set children n [])) names (map_set indeg n 0, map_set children n []) = (i', c')" by simp
  from Cons.IH [OF this] show ?case
    using set_map_set_subset [of children n "[]"] by (auto simp: map_keys_map_set)
qed

lemma init_tables_ok: "tables_ok (set names) N (init_tables names)"
proof -
  obtain i c where ic: "init_tables names = (i, c)" by (cases "init_tables names")
  then have "fold (\<lambda>n (indeg, children). (map_set indeg n 0, map_set children n [])) names ([], []) = (i, c)"
    by (simp add: init_tables_def)
  from init_tables_aux [OF this] show ?thesis
    by (auto simp: tables_ok_def ic map_keys_def)
qed

lemma link_parent_ok:
  assumes "tables_ok (set (map_keys classes)) N st" and "name c \<in> N"
  shows "\<exists>st'. link_parent classes c p st = Inr st' \<and> tables_ok (set (map_keys classes)) N st'"
proof -
  obtain indeg children where st: "st = (indeg, children)" by (cases st)
  show ?thesis
  proof (cases "map_has classes p")
    case False
    with assms st show ?thesis by (simp add: link_parent_def)
  next
    case True
    then have "p \<in> set (map_keys children)" using assms(1) st by (auto simp: map_has_iff tables_ok_def)
    then obtain s where s: "map_get children p = Some s"
      using map_get_None_iff [of children p] by auto
    from map_get_Some_mem [OF s] assms(1) st have sN: "set s \<subseteq> N" by (auto simp: tables_ok_def)
    have sN': "set (set_add s (name c)) \<subseteq> N"
      using sN assms(2) by (auto simp: set_add_def)
    have "\<forall>(a, b) \<in> set (map_set children p (set_add s (name c))). set b \<subseteq> N"
    proof (clarify)
      fix a b x
      assume ab: "(a, b) \<in> set (map_set children p (set_add s (name c)))" and x: "x \<in> set b"
      from ab set_map_set_subset [of children p "set_add s (name c)"]
      have "(a, b) = (p, set_add s (name c)) \<or> (a, b) \<in> set children" by blast
      then show "x \<in> N"
      proof
        assume "(a, b) = (p, set_add s (name c))"
        with x sN' show ?thesis by auto
      next
        assume "(a, b) \<in> set children"
        with assms(1) st x show ?thesis by (auto simp: tables_ok_def)
      qed
    qed
    then have "tables_ok (set (map_keys classes)) N (map_set indeg (name c) (num_get indeg (name c) + 1),
                    map_set children p (set_add s (name c)))"
      using assms(1) st by (auto simp: tables_ok_def map_keys_map_set)
    with True s st show ?thesis by (simp add: link_parent_def)
  qed
qed

lemma link_all_ok:
  assumes "tables_ok (set (map_keys classes)) (name ` set (map_values classes)) st"
  shows "\<exists>st'. link_all classes st = Inr st' \<and> tables_ok (set (map_keys classes)) (name ` set (map_values classes)) st'"
  unfolding link_all_def
  apply (rule foldE_invariant [where I = "tables_ok (set (map_keys classes)) (name ` set (map_values classes))"])
   apply (rule foldE_invariant)
    apply (rule link_parent_ok)
     apply assumption
    apply simp
   apply assumption
  apply (rule assms)
  done


lemma visit_child_queue_ok:
  assumes "queue_ok out q indeg" and "visit_child ch (indeg, q) = (indeg', q')"
  shows "queue_ok out q' indeg' \<and> set q \<subseteq> set q' \<and> set q' \<subseteq> insert ch (set q)"
proof (cases "ch \<in> set (out @ q)")
  case True
  with assms(1) have le: "num_get indeg ch \<le> 0" by (simp add: queue_ok_def)
  then have "num_get indeg ch - 1 \<noteq> 0" by simp
  with assms le show ?thesis
    by (auto simp: visit_child_def Let_def num_get_map_set queue_ok_def)
next
  case False
  with assms show ?thesis
    by (auto simp: visit_child_def Let_def num_get_map_set queue_ok_def split: if_splits)
qed

lemma fold_visit_child_queue_ok:
  assumes "queue_ok out q indeg" and "fold visit_child chs (indeg, q) = (indeg', q')"
  shows "queue_ok out q' indeg' \<and> set q \<subseteq> set q' \<and> set q' \<subseteq> set chs \<union> set q"
  using assms
proof (induction chs arbitrary: indeg q)
  case Nil
  then show ?case by simp
next
  case (Cons ch chs)
  obtain i1 q1 where s: "visit_child ch (indeg, q) = (i1, q1)"
    by (cases "visit_child ch (indeg, q)")
  from visit_child_queue_ok [OF Cons.prems(1) s]
  have ok1: "queue_ok out q1 i1" and sub: "set q \<subseteq> set q1" "set q1 \<subseteq> insert ch (set q)" by auto
  from Cons.prems(2) s have "fold visit_child chs (i1, q1) = (indeg', q')" by simp
  from Cons.IH [OF ok1 this] sub show ?case by auto
qed

lemma children_of_subset: "set (children_of children n) \<subseteq> \<Union> (set ` snd ` set children)"
proof (cases "map_get children n")
  case None
  then show ?thesis by (simp add: children_of_def)
next
  case (Some s)
  from map_get_Some_mem [OF this] have "s \<in> snd ` set children" by force
  with Some show ?thesis by (auto simp: children_of_def)
qed

lemma kahn_loop_distinct:
  "queue_ok out q indeg \<Longrightarrow>
   distinct (kahn_loop children q out indeg)
   \<and> set out \<union> set q \<subseteq> set (kahn_loop children q out indeg)
   \<and> set (kahn_loop children q out indeg) \<subseteq> set out \<union> set q \<union> \<Union> (set ` snd ` set children)"
proof (induction children q out indeg rule: kahn_loop.induct)
  case (1 children out indeg)
  then show ?case by (simp add: queue_ok_def)
next
  case (2 children n q out indeg)
  obtain indeg' q' where f: "fold visit_child (children_of children n) (indeg, q) = (indeg', q')"
    by (cases "fold visit_child (children_of children n) (indeg, q)")
  from "2.prems" have "queue_ok (out @ [n]) q indeg" by (auto simp: queue_ok_def)
  from fold_visit_child_queue_ok [OF this f]
  have ok: "queue_ok (out @ [n]) q' indeg'" and sub: "set q \<subseteq> set q'"
    "set q' \<subseteq> set (children_of children n) \<union> set q" by auto
  from "2.IH" [OF f [symmetric] ok]
  have IH: "distinct (kahn_loop children q' (out @ [n]) indeg')"
    "set (out @ [n]) \<union> set q' \<subseteq> set (kahn_loop children q' (out @ [n]) indeg')"
    "set (kahn_loop children q' (out @ [n]) indeg') \<subseteq> set (out @ [n]) \<union> set q' \<union> \<Union> (set ` snd ` set children)"
    by auto
  have eq: "kahn_loop children (n # q) out indeg = kahn_loop children q' (out @ [n]) indeg'"
    using f by simp
  show ?case unfolding eq using IH sub children_of_subset [of children n] by auto
qed

lemma append_missing_set: "set (append_missing names out) = set out \<union> set names"
  unfolding append_missing_def by (induction names arbitrary: out) auto

lemma append_missing_distinct: "distinct out \<Longrightarrow> distinct (append_missing names out)"
  unfolding append_missing_def by (induction names arbitrary: out) auto

lemma topoSortClasses_result:
  assumes "is_Map classes"
  shows "\<exists>out. topoSortClasses classes = Inr out \<and> distinct out
     \<and> set (map_keys classes) \<subseteq> set out
     \<and> set out \<subseteq> set (map_keys classes) \<union> name ` set (map_values classes)"
proof -
  define names where "names = sort (map_keys classes)"
  have names: "set names = set (map_keys classes)" "distinct names"
    using assms by (simp_all add: names_def is_Map_def map_keys_def)
  have "tables_ok (set (map_keys classes)) (name ` set (map_values classes)) (init_tables names)"
    using init_tables_ok [of names] names by simp
  from link_all_ok [OF this] obtain indeg children where
    l: "link_all classes (init_tables names) = Inr (indeg, children)"
    and ok: "tables_ok (set (map_keys classes)) (name ` set (map_values classes)) (indeg, children)"
    by auto
  define q where "q = filter (\<lambda>n. num_get indeg n = 0) names"
  define out where "out = kahn_loop children q [] indeg"
  have "queue_ok [] q indeg" using names by (auto simp: queue_ok_def q_def)
  from kahn_loop_distinct [OF this, of children]
  have d: "distinct out" and s: "set out \<subseteq> set q \<union> \<Union> (set ` snd ` set children)"
    by (auto simp: out_def)
  have ch: "\<Union> (set ` snd ` set children) \<subseteq> name ` set (map_values classes)"
    using ok by (fastforce simp: tables_ok_def)
  have eq: "topoSortClasses classes = Inr (append_missing names out)"
    by (simp add: topoSortClasses_def Let_def names_def [symmetric] l q_def out_def)
  have "set q \<subseteq> set names" by (auto simp: q_def)
  with s ch names have "set out \<subseteq> set (map_keys classes) \<union> name ` set (map_values classes)"
    by blast
  with names d show ?thesis
    unfolding eq by (auto simp: append_missing_set append_missing_distinct)
qed

lemma count_list_distinct: "distinct xs \<Longrightarrow> x \<in> set xs \<Longrightarrow> count_list xs x = 1"
  by (induction xs) (auto simp: count_list_0_iff)

lemma topoSortClasses_two_cycle: "topoSortClasses two_cycle = Inr [js ''A'', js ''B'']"
  by (simp add: topoSortClasses_def two_cycle_def js_def map_keys_def map_values_def
      link_all_def init_tables_def link_parent_def map_has_def set_add_def num_get_def
      append_missing_def)

text \<open>
  Claim C1. For every class mapping, whatever its parent edges (cycles, parents that are
  not classes), the linearizer returns a list, without raising, and every class name of
  the mapping is in that list exactly once. The list has no name twice; when every class
  is stored under its own name, as the graph extractor does, the list holds the class
  names and nothing else.
\<close>

theorem topoSortClasses_exactly_once:
  assumes "is_Map classes"
  shows "\<exists>out. topoSortClasses classes = Inr out
     \<and> (\<forall>n \<in> set (map_keys classes). count_list out n = 1)
     \<and> distinct out
     \<and> ((\<forall>(k, c) \<in> set classes. name c = k) \<longrightarrow> set out = set (map_keys classes))"
proof -
  from topoSortClasses_result [OF assms] obtain out where
    out: "topoSortClasses classes = Inr out" "distinct out"
      "set (map_keys classes) \<subseteq> set out"
      "set out \<subseteq> set (map_keys classes) \<union> name ` set (map_values classes)"
    by blast
  have "\<forall>n \<in> set (map_keys classes). count_list out n = 1"
    using out(2,3) count_list_distinct [of out] by auto
  moreover have "set out = set (map_keys classes)" if "\<forall>(k, c) \<in> set classes. name c = k"
  proof -
    from that have "name ` set (map_values classes) \<subseteq> set (map_keys classes)"
      by (force simp: map_values_def map_keys_def)
    with out(3,4) show ?thesis by blast
  qed
  ultimately show ?thesis using out(1,2) by blast
qed

theorem topoSortClasses_exactly_once_witness:
  "is_Map two_cycle
   \<and> (\<exists>out. topoSortClasses two_cycle = Inr out
        \<and> count_list out (js ''A'') = 1 \<and> count_list out (js ''B'') = 1
        \<and> out = [js ''A'', js ''B''])"
proof -
  have m: "is_Map two_cycle" by (simp add: is_Map_def two_cycle_def js_def)
  from topoSortClasses_exactly_once [OF m] obtain out where
    out: "topoSortClasses two_cycle = Inr out"
      "\<forall>n \<in> set (map_keys two_cycle). count_list out n = 1"
    by blast
  have "js ''A'' \<in> set (map_keys two_cycle)" "js ''B'' \<in> set (map_keys two_cycle)"
    by (simp_all add: map_keys_def two_cycle_def)
  with out(2) have "count_list out (js ''A'') = 1" "count_list out (js ''B'') = 1" by blast+
  moreover from out(1) have "out = [js ''A'', js ''B'']" by (simp add: topoSortClasses_two_cycle)
  ultimately show ?thesis using m out(1) by blast
qed

subsection \<open>Identifier sanitizer\<close>

lemma replaceAll_ident_parts:
  "list_all isIdentPart (replaceAll (\<lambda>c. \<not> isIdentPart c) (js ''_'') s)"
  by (induction s) (auto simp: replaceAll_def js_def isIdentPart_def)

lemma replaceAll_id: "list_all (\<lambda>c. \<not> P c) s \<Longrightarrow> replaceAll P r s = s"
  by (induction s) (auto simp: replaceAll_def)

lemma reserved_last: "w \<in> set TS_RESERVED \<Longrightarrow> w \<noteq> [] \<and> last w \<noteq> 0x5F"
  by (auto simp: TS_RESERVED_def js_def)

lemma not_reserved_suffixed: "out @ js ''_'' \<notin> set TS_RESERVED"
proof
  assume "out @ js ''_'' \<in> set TS_RESERVED"
  from reserved_last [OF this] show False by (simp add: js_def)
qed

lemma digit_not_start: "isDigit c \<Longrightarrow> \<not> isIdentStart c"
  by (auto simp: isDigit_def isIdentStart_def isUpper_def isLower_def word_le_nat_alt)

lemma part_cases: "isIdentPart c \<Longrightarrow> isDigit c \<or> isIdentStart c"
  by (auto simp: isIdentPart_def isIdentStart_def)

lemma start_is_part: "isIdentStart c \<Longrightarrow> isIdentPart c"
  by (auto simp: isIdentPart_def isIdentStart_def)

lemma underscore_start: "isIdentStart 0x5F" and underscore_part: "isIdentPart 0x5F"
  by (simp_all add: isIdentStart_def isIdentPart_def)

lemma matchesIdentifier_prefixed:
  assumes "list_all isIdentPart out"
  shows "matchesIdentifier
     (let out = (if startsWith isDigit out then js ''_'' @ out else out);
          out = (if \<not> startsWith isIdentStart out then js ''_'' @ out else out)
      in out)"
proof (cases out)
  case Nil
  then show ?thesis by (simp add: js_def underscore_start)
next
  case (Cons c cs)
  with assms have c: "isIdentPart c" and cs: "list_all isIdentPart cs" by simp_all
  show ?thesis
  proof (cases "isDigit c")
    case True
    with Cons c cs show ?thesis by (simp add: js_def underscore_start)
  next
    case False
    with c have "isIdentStart c" using part_cases by blast
    with Cons False cs show ?thesis by simp
  qed
qed

lemma matchesIdentifier_append:
  "matchesIdentifier s \<Longrightarrow> list_all isIdentPart t \<Longrightarrow> matchesIdentifier (s @ t)"
  by (cases s) simp_all

lemma toTsIdent_sanitized: "sanitized (toTsIdent s)"
proof -
  define o1 where "o1 = replaceAll (\<lambda>c. \<not> isIdentPart c) (js ''_'') s"
  define o3 where "o3 =
     (let out = (if startsWith isDigit o1 then js ''_'' @ o1 else o1);
          out = (if \<not> startsWith isIdentStart out then js ''_'' @ out else out)
      in out)"
  have m3: "matchesIdentifier o3"
    unfolding o3_def o1_def by (rule matchesIdentifier_prefixed [OF replaceAll_ident_parts])
  have eq: "toTsIdent s = (if o3 \<in> set TS_RESERVED then o3 @ js ''_'' else o3)"
    by (simp add: toTsIdent_def o3_def o1_def Let_def)
  show ?thesis
  proof (cases "o3 \<in> set TS_RESERVED")
    case True
    have "matchesIdentifier (o3 @ js ''_'')"
      by (rule matchesIdentifier_append [OF m3]) (simp add: js_def underscore_part)
    with True eq show ?thesis by (simp add: sanitized_def not_reserved_suffixed)
  next
    case False
    with m3 eq show ?thesis by (simp add: sanitized_def)
  qed
qed

lemma toTsIdent_fixes_sanitized:
  assumes "sanitized s"
  shows "toTsIdent s = s"
proof -
  from assms obtain c cs where s: "s = c # cs" and c: "isIdentStart c"
    and cs: "list_all isIdentPart cs" and nr: "s \<notin> set TS_RESERVED"
    by (cases s) (auto simp: sanitized_def)
  have "list_all (\<lambda>c. \<not> \<not> isIdentPart c) s"
    using s c cs by (simp add: start_is_part)
  then have r: "replaceAll (\<lambda>c. \<not> isIdentPart c) (js ''_'') s = s"
    by (rule replaceAll_id)
  have nd: "\<not> isDigit c" using c digit_not_start by blast
  show ?thesis
    unfolding toTsIdent_def r using s c nd nr by (simp add: Let_def)
qed

lemma toTsIdent_examples:
  "toTsIdent (js ''3DModel'') = js ''_3DModel''
   \<and> toTsIdent (js ''Some-Thing'') = js ''Some_Thing''
   \<and> toTsIdent (js ''type'') = js ''type_''"
  by (simp add: toTsIdent_def replaceAll_def TS_RESERVED_def js_def isIdentPart_def
      isIdentStart_def isUpper_def isLower_def isDigit_def)

text \<open>A result without an underscore is the input itself: nothing was replaced or added.\<close>

lemma replaceAll_no_underscore:
  "0x5F \<notin> set (replaceAll (\<lambda>c. \<not> isIdentPart c) (js ''_'') s) \<Longrightarrow>
   replaceAll (\<lambda>c. \<not> isIdentPart c) (js ''_'') s = s"
  by (induction s) (auto simp: replaceAll_def js_def split: if_splits)

lemma toTsIdent_no_underscore:
  assumes "0x5F \<notin> set (toTsIdent s)"
  shows "toTsIdent s = s"
proof -
  define o1 where "o1 = replaceAll (\<lambda>c. \<not> isIdentPart c) (js ''_'') s"
  have "toTsIdent s = o1 \<and> 0x5F \<notin> set o1"
    using assms unfolding toTsIdent_def o1_def [symmetric]
    by (auto simp: Let_def js_def split: if_splits)
  with replaceAll_no_underscore [of s] show ?thesis by (simp add: o1_def)
qed

lemma reservedWords_listed:
  "set reservedWords \<subseteq> set TS_RESERVED \<union> set (map js [''await'', ''bigint'', ''undefined''])"
  by (simp add: reservedWords_def TS_RESERVED_def)

lemma reservedWords_missing:
  "set (map js [''await'', ''bigint'', ''undefined'']) \<subseteq> set reservedWords"
  by (simp add: reservedWords_def)

text \<open>
  The sanitizer returns a valid identifier for every class name but the three reserved
  words that its list lacks.
\<close>

lemma toTsIdent_valid_iff:
  "validTsIdent (toTsIdent s) \<longleftrightarrow> s \<notin> set (map js [''await'', ''bigint'', ''undefined''])"
proof -
  let ?M = "set (map js [''await'', ''bigint'', ''undefined''])"
  have inv: "matchesIdentifier (toTsIdent s)" "toTsIdent s \<notin> set TS_RESERVED"
    using toTsIdent_sanitized [of s] by (simp_all add: sanitized_def)
  have u: "0x5F \<notin> set w" if "w \<in> ?M" for w
    using that by (auto simp: js_def)
  have k: "toTsIdent w = w" if "w \<in> ?M" for w
    using that
    by (auto simp: toTsIdent_def replaceAll_def TS_RESERVED_def js_def isIdentPart_def
        isIdentStart_def isUpper_def isLower_def isDigit_def)
  have "toTsIdent s \<in> ?M \<longleftrightarrow> s \<in> ?M"
  proof
    assume m: "toTsIdent s \<in> ?M"
    from toTsIdent_no_underscore [OF u [OF m]] m show "s \<in> ?M" by simp
  next
    assume "s \<in> ?M"
    with k show "toTsIdent s \<in> ?M" by simp
  qed
  moreover have "toTsIdent s \<in> set reservedWords \<longleftrightarrow> toTsIdent s \<in> ?M"
    using inv(2) reservedWords_listed reservedWords_missing by blast
  ultimately show ?thesis using inv(1) by (simp add: validTsIdent_def)
qed

text \<open>
  Claim C3 holds of every input but three: the sanitizer is total and its result always
  matches \<open>[A-Za-z_$][A-Za-z0-9_$]*\<close>, but the class name \<open>await\<close> is returned as it is,
  and \<open>await\<close> is a reserved word of the target language (as are \<open>bigint\<close> and \<open>undefined\<close>
  for the name of an interface). The list \<open>TS_RESERVED\<close>, which the sanitizer is documented
  to avoid reserved keywords with, lacks these words.
\<close>

theorem toTsIdent_keeps_await:
  "toTsIdent (js ''await'') = js ''await''
   \<and> js ''await'' \<in> set reservedWords
   \<and> js ''await'' \<notin> set TS_RESERVED
   \<and> \<not> validTsIdent (toTsIdent (js ''await''))"
proof -
  have k: "toTsIdent (js ''await'') = js ''await''"
    by (simp add: toTsIdent_def replaceAll_def TS_RESERVED_def js_def isIdentPart_def
        isIdentStart_def isUpper_def isLower_def isDigit_def)
  have r: "js ''await'' \<in> set reservedWords" by (simp add: reservedWords_def)
  have n: "js ''await'' \<notin> set TS_RESERVED" by (simp add: TS_RESERVED_def js_def)
  from k r n show ?thesis by (simp add: validTsIdent_def)
qed

text \<open>
  Claim C4. The sanitizer is idempotent: applied to its own output it returns that output.
\<close>

theorem toTsIdent_idempotent: "toTsIdent (toTsIdent s) = toTsIdent s"
  by (rule toTsIdent_fixes_sanitized [OF toTsIdent_sanitized])

theorem toTsIdent_idempotent_witness:
  "toTsIdent (toTsIdent (js ''type'')) = js ''type_''"
proof -
  have "toTsIdent (js ''type'') = js ''type_''"
    by (simp add: toTsIdent_def replaceAll_def TS_RESERVED_def js_def isIdentPart_def
        isIdentStart_def isUpper_def isLower_def isDigit_def)
  then show ?thesis using toTsIdent_idempotent [of "js ''type''"] by simp
qed

subsection \<open>Type mapper\<close>

lemma sort_new_Set: "sort (new_Set xs) = sorted_list_of_set (set xs)"
proof -
  have "sort (new_Set xs) = sort (remdups (new_Set xs))"
    by (simp add: distinct_remdups_id distinct_new_Set)
  also have "\<dots> = sorted_list_of_set (set (new_Set xs))"
    by (simp add: sorted_list_of_set_sort_remdups)
  finally show ?thesis by (simp add: set_new_Set)
qed

lemma rangeToTs_cases:
  "rangeToTs r tbl =
     (case scalarType r of
        Some t \<Rightarrow> t
      | None \<Rightarrow> generatedClassType tbl r @ js '' | string'')"
  by (simp add: rangeToTs_def scalarType_def generatedClassType_def js_def)

lemma propToTs_text:
  "ranges p = [js ''Text''] \<Longrightarrow> propToTs p tbl = js ''string | Array<string>''"
  by (simp add: propToTs_def new_Set_def set_add_def rangeToTs_def js_def)

text \<open>
  Claim C6. For a property with a non-empty list of ranges, the type mapper takes the range
  names without repetition in lexicographic order, maps each one (a primitive vocabulary
  name to its scalar type, any other name to the generated class type or \<open>string\<close>), joins
  the alternatives into a union and returns that union or an array of it. A property
  whose only range is \<open>Text\<close> gets \<open>string | Array<string>\<close>.
\<close>

theorem propToTs_union:
  assumes "ranges prop \<noteq> []"
  shows "propToTs prop tbl =
     (let rs = sorted_list_of_set (set (ranges prop));
          union = join (js '' | '')
            (map (\<lambda>r. case scalarType r of
                         Some t \<Rightarrow> t
                       | None \<Rightarrow> generatedClassType tbl r @ js '' | string'') rs)
      in union @ js '' | Array<'' @ union @ js ''>'')
   \<and> (ranges prop = [js ''Text''] \<longrightarrow> propToTs prop tbl = js ''string | Array<string>'')"
proof -
  have "sorted_list_of_set (set (ranges prop)) \<noteq> []"
    using assms by (simp add: sorted_list_of_set_eq_Nil_iff)
  then show ?thesis
    using propToTs_text
    by (simp add: propToTs_def sort_new_Set Let_def rangeToTs_cases)
qed

theorem propToTs_union_witness:
  "ranges textProp \<noteq> [] \<and> propToTs textProp [] = js ''string | Array<string>''"
proof -
  have r: "ranges textProp = [js ''Text'']" by (simp add: textProp_def)
  then have ne: "ranges textProp \<noteq> []" by simp
  from propToTs_union [OF ne, of "[]"] r ne show ?thesis by blast
qed

text \<open>
  Claim C7. A property whose list of ranges is empty gets the type \<open>unknown\<close>; the type
  mapper has no operation that raises.
\<close>

theorem propToTs_no_ranges:
  assumes "ranges prop = []"
  shows "propToTs prop tbl = js ''unknown''"
  using assms by (simp add: propToTs_def new_Set_def)

theorem propToTs_no_ranges_witness:
  "ranges noRangeProp = [] \<and> propToTs noRangeProp [] = js ''unknown''"
proof -
  have r: "ranges noRangeProp = []" by (simp add: noRangeProp_def)
  from propToTs_no_ranges [OF r, of "[]"] r show ?thesis by simp
qed

subsection \<open>Triple store adapter\<close>

lemma getObjects_commentQuads:
  "getObjects (listStore commentQuads) (js ''https://schema.org/Thing'') (NS_rdfs @ js ''comment'')
   = [js ''thing'']"
  by (simp add: getObjects_def listStore_def commentQuads_def namedNode_def defaultGraph_def
      isNamedNode_def isLiteral_def js_def)

lemma namedOrLiteralValues_commentQuads:
  "namedOrLiteralValues
     (listStore commentQuads (Some (js ''https://schema.org/Thing''))
        (Some (NS_rdfs @ js ''comment'')) None None)
   = [[], js ''thing'']"
  by (simp add: namedOrLiteralValues_def listStore_def commentQuads_def namedNode_def
      defaultGraph_def isNamedNode_def isLiteral_def js_def)

text \<open>
  Claim C8 as stated fails: a literal whose value is the empty string is a literal, and its
  value is dropped by \<open>filter(Boolean)\<close> with the placeholders of the other kinds of term.
\<close>

theorem getObjects_drops_empty_literal:
  "getObjects (listStore commentQuads) (js ''https://schema.org/Thing'') (NS_rdfs @ js ''comment'')
   \<noteq> namedOrLiteralValues
       (listStore commentQuads (Some (js ''https://schema.org/Thing''))
          (Some (NS_rdfs @ js ''comment'')) None None)"
  by (simp only: getObjects_commentQuads namedOrLiteralValues_commentQuads) simp

text \<open>
  Claim C8, amended. For every subject and predicate, \<open>getObjects\<close> returns the non-empty
  values of the matching quads whose object is a named node or a literal, in store order;
  blank nodes, the other kinds of term and empty values are left out. Where no named node
  or literal among the matching objects has an empty value, these are all their values.
\<close>

theorem getObjects_nonempty_values:
  "getObjects getQuads s p =
     filter (\<lambda>v. v \<noteq> []) (namedOrLiteralValues (getQuads (Some s) (Some p) None None))
   \<and> ([] \<notin> set (namedOrLiteralValues (getQuads (Some s) (Some p) None None)) \<longrightarrow>
        getObjects getQuads s p = namedOrLiteralValues (getQuads (Some s) (Some p) None None))"
proof -
  have eq: "filter (\<lambda>v. v \<noteq> [])
        (map (\<lambda>q. if isNamedNode (object q) \<or> isLiteral (object q)
                   then term_value (object q) else []) quads)
      = filter (\<lambda>v. v \<noteq> []) (namedOrLiteralValues quads)" for quads
    by (induction quads) (auto simp: namedOrLiteralValues_def)
  have "filter (\<lambda>v. v \<noteq> []) vs = vs" if "[] \<notin> set vs" for vs :: "jsstring list"
    using that by (induction vs) auto
  with eq show ?thesis by (simp add: getObjects_def)
qed

theorem getObjects_nonempty_values_witness:
  "getObjects (listStore commentQuads) (js ''https://schema.org/Thing'') (NS_rdfs @ js ''comment'')
   = [js ''thing'']"
proof -
  have e: "filter (\<lambda>v. v \<noteq> []) [[], js ''thing''] = [js ''thing'']"
    by (simp add: js_def)
  from getObjects_nonempty_values
    [of "listStore commentQuads" "js ''https://schema.org/Thing''" "NS_rdfs @ js ''comment''"]
  show ?thesis by (simp only: namedOrLiteralValues_commentQuads e)
qed

subsection \<open>The React helper\<close>

lemma replaceAll_Cons: "replaceAll P r (c # s) = (if P c then r else [c]) @ replaceAll P r s"
  by (simp add: replaceAll_def)

lemma replaceAll_Nil: "replaceAll P r [] = []"
  by (simp add: replaceAll_def)

lemma replaceAll_append: "replaceAll P r (s @ t) = replaceAll P r s @ replaceAll P r t"
  by (simp add: replaceAll_def)

lemma escape_chain_unit:
  "replaceAll (\<lambda>c. c = 0x2029) (0x5C # js ''u2029'')
     (replaceAll (\<lambda>c. c = 0x2028) (0x5C # js ''u2028'')
       (replaceAll (\<lambda>c. c = 0x26) (0x5C # js ''u0026'')
         (replaceAll (\<lambda>c. c = 0x3E) (0x5C # js ''u003e'')
           (if c = 0x3C then 0x5C # js ''u003c'' else [c]))))
   = escapeUnit c"
  by (simp add: replaceAll_Cons replaceAll_Nil escapeUnit_def js_def)

lemma escape_chain:
  "replaceAll (\<lambda>c. c = 0x2029) (0x5C # js ''u2029'')
     (replaceAll (\<lambda>c. c = 0x2028) (0x5C # js ''u2028'')
       (replaceAll (\<lambda>c. c = 0x26) (0x5C # js ''u0026'')
         (replaceAll (\<lambda>c. c = 0x3E) (0x5C # js ''u003e'')
           (replaceAll (\<lambda>c. c = 0x3C) (0x5C # js ''u003c'') json))))
   = concat (map escapeUnit json)"
proof (induction json)
  case Nil
  then show ?case by (simp add: replaceAll_Nil)
next
  case (Cons c json)
  show ?case
    unfolding replaceAll_Cons [of _ _ c json] replaceAll_append Cons.IH escape_chain_unit
    by simp
qed

lemma escapeUnit_safe: "set (escapeUnit c) \<inter> {0x3C, 0x3E, 0x26, 0x2028, 0x2029} = {}"
  by (simp add: escapeUnit_def js_def)

text \<open>
  Claim C9. Whenever \<open>JSON.stringify\<close> returns a string, \<open>safeJsonLdStringify\<close> returns
  that string with every \<open><\<close>, \<open>>\<close>, \<open>&\<close>, U+2028 and U+2029 replaced by its escape, and
  whatever string \<open>safeJsonLdStringify\<close> returns, none of these five code units is in it.
\<close>

theorem safeJsonLdStringify_no_markup:
  "(\<forall>json. stringify v = Inr (Some json) \<longrightarrow>
      safeJsonLdStringify stringify v = Inr (concat (map escapeUnit json)))
   \<and> (\<forall>s. safeJsonLdStringify stringify v = Inr s \<longrightarrow>
        set s \<inter> {0x3C, 0x3E, 0x26, 0x2028, 0x2029} = {})"
proof -
  have a: "safeJsonLdStringify stringify v = Inr (concat (map escapeUnit json))"
    if "stringify v = Inr (Some json)" for json
    using that by (simp add: safeJsonLdStringify_def escape_chain)
  have b: "set s \<inter> {0x3C, 0x3E, 0x26, 0x2028, 0x2029} = {}"
    if "safeJsonLdStringify stringify v = Inr s" for s
  proof -
    from that obtain json where j: "stringify v = Inr (Some json)"
      by (auto simp: safeJsonLdStringify_def split: sum.splits option.splits)
    from a [OF j] that have "s = concat (map escapeUnit json)" by simp
    then show ?thesis using escapeUnit_safe by fastforce
  qed
  from a b show ?thesis by blast
qed

theorem safeJsonLdStringify_no_markup_witness:
  \<open>safeJsonLdStringify scriptStringify ()
     = Inr (js ''"'' @ 0x5C # js ''u003c/script'' @ 0x5C # js ''u003e'' @ 0x5C # js ''u0026''
            @ 0x5C # js ''u2028'' @ 0x5C # js ''u2029"'')
   \<and> set (js ''"'' @ 0x5C # js ''u003c/script'' @ 0x5C # js ''u003e'' @ 0x5C # js ''u0026''
            @ 0x5C # js ''u2028'' @ 0x5C # js ''u2029"'')
       \<inter> {0x3C, 0x3E, 0x26, 0x2028, 0x2029} = {}\<close>
proof -
  have s: \<open>scriptStringify () = Inr (Some (js ''"</script>&'' @ [0x2028, 0x2029, 0x22]))\<close>
    by (simp add: scriptStringify_def)
  note t = safeJsonLdStringify_no_markup [of scriptStringify "()"]
  from t s have r: \<open>safeJsonLdStringify scriptStringify ()
      = Inr (concat (map escapeUnit (js ''"</script>&'' @ [0x2028, 0x2029, 0x22])))\<close>
    by blast
  have e: \<open>concat (map escapeUnit (js ''"</script>&'' @ [0x2028, 0x2029, 0x22]))
      = js ''"'' @ 0x5C # js ''u003c/script'' @ 0x5C # js ''u003e'' @ 0x5C # js ''u0026''
        @ 0x5C # js ''u2028'' @ 0x5C # js ''u2029"''\<close>
    by (simp add: escapeUnit_def js_def)
  have r': \<open>safeJsonLdStringify scriptStringify ()
     = Inr (js ''"'' @ 0x5C # js ''u003c/script'' @ 0x5C # js ''u003e'' @ 0x5C # js ''u0026''
            @ 0x5C # js ''u2028'' @ 0x5C # js ''u2029"'')\<close>
    by (simp only: r e)
  from t r' show ?thesis by blast
qed

subsection \<open>Inherited properties\<close>

lemma set_fold_set_add: "set (fold (\<lambda>p out. set_add out p) ps out) = set out \<union> set ps"
  by (induction ps arbitrary: out) (auto simp: set_add_def)

lemma distinct_fold_set_add: "distinct out \<Longrightarrow> distinct (fold (\<lambda>p out. set_add out p) ps out)"
  by (induction ps arbitrary: out) (auto simp: set_add_def)

lemma set_set_add: "set (set_add s x) = insert x (set s)"
  by (auto simp: set_add_def)

lemma walk_stack_append: "walk_stack classes (xs @ ys) st = walk_stack classes ys (walk_stack classes xs st)"
proof (induction classes xs st rule: walk_stack.induct)
  case (1 classes st)
  then show ?case by simp
next
  case (2 classes n todo seen out)
  then show ?case by (auto split: option.splits)
qed

lemma walk_eq_stack: "walk classes todo st = walk_stack classes todo st"
proof (induction classes todo st rule: walk.induct)
  case (1 classes st)
  then show ?case by simp
next
  case (2 classes n rest seen out)
  show ?case
  proof (cases "n \<in> set seen")
    case True
    with 2 show ?thesis by simp
  next
    case False
    show ?thesis
    proof (cases "map_get classes n")
      case None
      with False 2 show ?thesis by simp
    next
      case (Some cls)
      with False 2 show ?thesis by (simp add: walk_stack_append)
    qed
  qed
qed

lemma walk_stack_seen_grows: "set seen \<union> set todo \<subseteq> set (fst (walk_stack classes todo (seen, out)))"
proof (induction classes todo "(seen, out)" arbitrary: seen out rule: walk_stack.induct)
  case (1 classes)
  then show ?case by simp
next
  case (2 classes n todo seen out)
  show ?case
  proof (cases "n \<in> set seen")
    case True
    with 2(1) show ?thesis by auto
  next
    case False
    show ?thesis
    proof (cases "map_get classes n")
      case None
      with False 2(2) show ?thesis by (auto simp: set_set_add)
    next
      case (Some cls)
      with False 2(3) [OF False Some] show ?thesis by (auto simp: set_set_add)
    qed
  qed
qed

lemma walk_stack_closed:
  "parentEdges classes `` set seen \<subseteq> set seen \<union> set todo \<Longrightarrow>
   parentEdges classes `` set (fst (walk_stack classes todo (seen, out)))
     \<subseteq> set (fst (walk_stack classes todo (seen, out)))"
proof (induction classes todo "(seen, out)" arbitrary: seen out rule: walk_stack.induct)
  case (1 classes)
  then show ?case by simp
next
  case (2 classes n todo seen out)
  show ?case
  proof (cases "n \<in> set seen")
    case True
    with 2(1) [OF True] 2(4) show ?thesis by auto
  next
    case False
    show ?thesis
    proof (cases "map_get classes n")
      case None
      then have "parentEdges classes `` {n} = {}" by (auto simp: parentEdges_def)
      with 2(4) have "parentEdges classes `` set (set_add seen n) \<subseteq> set (set_add seen n) \<union> set todo"
        by (auto simp: set_set_add)
      from 2(2) [OF False None this] False None show ?thesis by simp
    next
      case (Some cls)
      then have "parentEdges classes `` {n} = set (parents cls)" by (auto simp: parentEdges_def)
      with 2(4) have "parentEdges classes `` set (set_add seen n)
          \<subseteq> set (set_add seen n) \<union> set (parents cls @ todo)"
        by (auto simp: set_set_add)
      from 2(3) [OF False Some this] False Some show ?thesis by simp
    qed
  qed
qed

lemma walk_stack_seen_reachable:
  "set (fst (walk_stack classes todo (seen, out))) \<subseteq> set seen \<union> (parentEdges classes)\<^sup>* `` set todo"
proof (induction classes todo "(seen, out)" arbitrary: seen out rule: walk_stack.induct)
  case (1 classes)
  then show ?case by simp
next
  case (2 classes n todo seen out)
  show ?case
  proof (cases "n \<in> set seen")
    case True
    with 2(1) [OF True] show ?thesis by auto
  next
    case False
    show ?thesis
    proof (cases "map_get classes n")
      case None
      with 2(2) [OF False None] False show ?thesis by (auto simp: set_set_add)
    next
      case (Some cls)
      then have "set (parents cls) \<subseteq> parentEdges classes `` {n}" by (auto simp: parentEdges_def)
      then have "(parentEdges classes)\<^sup>* `` set (parents cls) \<subseteq> (parentEdges classes)\<^sup>* `` {n}"
        by (auto intro: converse_rtrancl_into_rtrancl)
      with 2(3) [OF False Some] False Some show ?thesis
        by (auto simp: set_set_add)
    qed
  qed
qed

lemma walk_stack_out:
  "set (snd (walk_stack classes todo (seen, out)))
     = set out \<union> propertiesOf classes (set (fst (walk_stack classes todo (seen, out))) - set seen)"
proof (induction classes todo "(seen, out)" arbitrary: seen out rule: walk_stack.induct)
  case (1 classes)
  then show ?case by (simp add: propertiesOf_def)
next
  case (2 classes n todo seen out)
  show ?case
  proof (cases "n \<in> set seen")
    case True
    with 2(1) [OF True] show ?thesis by auto
  next
    case False
    show ?thesis
    proof (cases "map_get classes n")
      case None
      have "propertiesOf classes (S - set (set_add seen n)) = propertiesOf classes (S - set seen)" for S
        using None by (auto simp: propertiesOf_def set_set_add)
      with 2(2) [OF False None] False None show ?thesis by simp
    next
      case (Some cls)
      let ?S = "set (fst (walk_stack classes (parents cls @ todo)
         (set_add seen n, fold (\<lambda>p out. set_add out p) (properties cls) out)))"
      have "n \<in> ?S" using walk_stack_seen_grows [of "set_add seen n"] by (auto simp: set_set_add)
      then have "propertiesOf classes (?S - set seen)
          = set (properties cls) \<union> propertiesOf classes (?S - set (set_add seen n))"
        using Some False by (auto simp: propertiesOf_def set_set_add)
      with 2(3) [OF False Some] False Some show ?thesis
        by (auto simp: set_fold_set_add)
    qed
  qed
qed

lemma walk_stack_out_distinct:
  "distinct out \<Longrightarrow> distinct (snd (walk_stack classes todo (seen, out)))"
proof (induction classes todo "(seen, out)" arbitrary: seen out rule: walk_stack.induct)
  case (1 classes)
  then show ?case by simp
next
  case (2 classes n todo seen out)
  show ?case
  proof (cases "n \<in> set seen")
    case True
    with 2(1) [OF True] 2(4) show ?thesis by auto
  next
    case False
    show ?thesis
    proof (cases "map_get classes n")
      case None
      with 2(2) [OF False None] 2(4) False show ?thesis by simp
    next
      case (Some cls)
      with 2(3) [OF False Some] 2(4) False show ?thesis
        by (simp add: distinct_fold_set_add)
    qed
  qed
qed

lemma Image_closed_rtrancl: "r `` X \<subseteq> X \<Longrightarrow> r\<^sup>* `` X \<subseteq> X"
proof
  fix y assume c: "r `` X \<subseteq> X" and "y \<in> r\<^sup>* `` X"
  then obtain x where "x \<in> X" "(x, y) \<in> r\<^sup>*" by auto
  from this(2) this(1) c show "y \<in> X" by (induction rule: rtrancl_induct) auto
qed

lemma collectAllPropsForClass_set:
  "set (collectAllPropsForClass c classes) = propertiesOf classes (ancestorsOrSelf classes c)"
proof -
  let ?S = "set (fst (walk_stack classes [c] ([], [])))"
  have "c \<in> ?S" using walk_stack_seen_grows [of "[]" "[c]"] by auto
  moreover have "parentEdges classes `` ?S \<subseteq> ?S" by (rule walk_stack_closed) simp
  ultimately have "ancestorsOrSelf classes c \<subseteq> ?S"
    unfolding ancestorsOrSelf_def using Image_closed_rtrancl [of "parentEdges classes" ?S]
    by (meson Image_mono empty_subsetI insert_subset order_refl subset_trans)
  moreover have "?S \<subseteq> ancestorsOrSelf classes c"
    using walk_stack_seen_reachable [of classes "[c]" "[]" "[]"] by (simp add: ancestorsOrSelf_def)
  ultimately have "?S = ancestorsOrSelf classes c" by blast
  with walk_stack_out [of classes "[c]" "[]" "[]"] show ?thesis
    by (simp add: collectAllPropsForClass_def walk_eq_stack)
qed

lemma collectAllPropsForClass_distinct: "distinct (collectAllPropsForClass c classes)"
  unfolding collectAllPropsForClass_def walk_eq_stack by (rule walk_stack_out_distinct) simp

subsection \<open>Graph extractor\<close>

lemma is_Map_map_set: "is_Map m \<Longrightarrow> is_Map (map_set m k v)"
  using map_keys_map_set_list [of m k v] by (auto simp: is_Map_def map_keys_def)

lemma is_Map_Nil: "is_Map []"
  by (simp add: is_Map_def)

lemma list_all_map_set: "list_all Q m \<Longrightarrow> Q (k, v) \<Longrightarrow> list_all Q (map_set m k v)"
  by (induction m) auto

lemma fold_invariant:
  assumes "\<And>x s. x \<in> set xs \<Longrightarrow> I s \<Longrightarrow> I (f x s)" and "I s"
  shows "I (fold f xs s)"
  using assms by (induction xs arbitrary: s) auto

lemma collectClasses_ok:
  "is_Map (collectClasses getQuads)
   \<and> list_all (\<lambda>kc. name (snd kc) = fst kc \<and> parents (snd kc) = [] \<and> properties (snd kc) = [])
       (collectClasses getQuads)"
  unfolding collectClasses_def
  by (rule fold_invariant)
    (auto simp: is_Map_map_set list_all_map_set is_Map_Nil split: option.splits)

lemma collectProperties_ok:
  "is_Map (collectProperties getQuads)
   \<and> list_all (\<lambda>kp. prop_name (snd kp) = fst kp) (collectProperties getQuads)"
  unfolding collectProperties_def
  by (rule fold_invariant)
    (auto simp: is_Map_map_set list_all_map_set is_Map_Nil split: option.splits)

lemma resolveSubclassing_keys: "map_keys (resolveSubclassing getQuads classes) = map_keys classes"
  by (auto simp: resolveSubclassing_def map_keys_def)

lemma resolveSubclassing_ok:
  assumes "list_all (\<lambda>kc. name (snd kc) = fst kc \<and> parents (snd kc) = [] \<and> properties (snd kc) = []) classes"
  shows "list_all (class_ok (set (map_keys classes)) P) (resolveSubclassing getQuads classes)"
  using assms
  by (auto simp: resolveSubclassing_def list_all_iff class_ok_def map_has_iff)

lemma resolveDomainsAndRanges_keys:
  "map_keys (resolveDomainsAndRanges getQuads props) = map_keys props"
  by (auto simp: resolveDomainsAndRanges_def map_keys_def)

lemma resolveDomainsAndRanges_ok:
  "list_all (\<lambda>kp. prop_name (snd kp) = fst kp) props \<Longrightarrow>
   list_all (\<lambda>kp. prop_name (snd kp) = fst kp) (resolveDomainsAndRanges getQuads props)"
  by (auto simp: resolveDomainsAndRanges_def list_all_iff)

lemma class_ok_mono: "class_ok K P kc \<Longrightarrow> P \<subseteq> P' \<Longrightarrow> class_ok K P' kc"
  by (auto simp: class_ok_def)

lemma attachProperty_ok:
  assumes "is_Map classes" and "list_all (class_ok K P) classes" and "prop_name prop \<in> P"
  shows "is_Map (attachProperty prop d classes)
     \<and> map_keys (attachProperty prop d classes) = map_keys classes
     \<and> list_all (class_ok K P) (attachProperty prop d classes)"
proof (cases "map_get classes d")
  case None
  with assms show ?thesis by (simp add: attachProperty_def)
next
  case (Some cls)
  from map_get_Some_mem [OF Some] have mem: "(d, cls) \<in> set classes" .
  with assms(2) have ok: "class_ok K P (d, cls)" by (auto simp: list_all_iff)
  have "d \<in> set (map_keys classes)" using mem by (force simp: map_keys_def)
  then have k: "map_keys (map_set classes d v) = map_keys classes" for v
    by (simp add: map_keys_map_set_list)
  have "class_ok K P (d, cls\<lparr>properties := set_add (properties cls) (prop_name prop)\<rparr>)"
    using ok assms(3) by (auto simp: class_ok_def set_add_def)
  with assms(1,2) Some k show ?thesis
    by (simp add: attachProperty_def is_Map_map_set list_all_map_set)
qed

lemma propagate_ok:
  assumes "is_Map classes" and "list_all (class_ok K P) classes"
    and "prop_name ` set (map_values props) \<subseteq> P"
  shows "is_Map (propagatePropertiesToClasses props classes)
     \<and> map_keys (propagatePropertiesToClasses props classes) = map_keys classes
     \<and> list_all (class_ok K P) (propagatePropertiesToClasses props classes)"
  unfolding propagatePropertiesToClasses_def
proof (rule fold_invariant [where I = "\<lambda>cs. is_Map cs \<and> map_keys cs = map_keys classes \<and> list_all (class_ok K P) cs"])
  fix pd cs
  assume p: "pd \<in> set (map_values props)"
    and cs: "is_Map cs \<and> map_keys cs = map_keys classes \<and> list_all (class_ok K P) cs"
  from p assms(3) have pn: "prop_name pd \<in> P" by auto
  show "is_Map (fold (attachProperty pd) (domains pd) cs)
     \<and> map_keys (fold (attachProperty pd) (domains pd) cs) = map_keys classes
     \<and> list_all (class_ok K P) (fold (attachProperty pd) (domains pd) cs)"
  proof (rule fold_invariant [where I = "\<lambda>cs. is_Map cs \<and> map_keys cs = map_keys classes \<and> list_all (class_ok K P) cs"])
    fix d cs'
    assume "is_Map cs' \<and> map_keys cs' = map_keys classes \<and> list_all (class_ok K P) cs'"
    with attachProperty_ok [of cs' K P pd d] pn
    show "is_Map (attachProperty pd d cs') \<and> map_keys (attachProperty pd d cs') = map_keys classes
       \<and> list_all (class_ok K P) (attachProperty pd d cs')" by simp
  qed (rule cs)
qed (use assms in simp)

lemma buildGraph_ok: "graph_ok (buildGraph getQuads)"
proof -
  define c1 where "c1 = collectClasses getQuads"
  define p1 where "p1 = collectProperties getQuads"
  define c2 where "c2 = resolveSubclassing getQuads c1"
  define p2 where "p2 = resolveDomainsAndRanges getQuads p1"
  define c3 where "c3 = propagatePropertiesToClasses p2 c2"
  have b: "buildGraph getQuads = (c3, p2)"
    by (simp add: buildGraph_def Let_def c1_def p1_def c2_def p2_def c3_def)
  have c1: "is_Map c1" "list_all (\<lambda>kc. name (snd kc) = fst kc \<and> parents (snd kc) = [] \<and> properties (snd kc) = []) c1"
    using collectClasses_ok [of getQuads] by (simp_all add: c1_def)
  have p1: "is_Map p1" "list_all (\<lambda>kp. prop_name (snd kp) = fst kp) p1"
    using collectProperties_ok [of getQuads] by (simp_all add: p1_def)
  have k2: "map_keys c2 = map_keys c1" by (simp add: c2_def resolveSubclassing_keys)
  have c2: "is_Map c2" using c1(1) k2 by (simp add: is_Map_def map_keys_def)
  have "list_all (class_ok (set (map_keys c1)) (set (map_keys p2))) c2"
    unfolding c2_def by (rule resolveSubclassing_ok [OF c1(2)])
  then have c2ok: "list_all (class_ok (set (map_keys c2)) (set (map_keys p2))) c2"
    by (simp add: k2)
  have kp2: "map_keys p2 = map_keys p1" by (simp add: p2_def resolveDomainsAndRanges_keys)
  have p2: "is_Map p2" using p1(1) kp2 by (simp add: is_Map_def map_keys_def)
  have p2ok: "list_all (\<lambda>kp. prop_name (snd kp) = fst kp) p2"
    unfolding p2_def by (rule resolveDomainsAndRanges_ok [OF p1(2)])
  then have "prop_name ` set (map_values p2) \<subseteq> set (map_keys p2)"
    by (force simp: list_all_iff map_values_def map_keys_def)
  from propagate_ok [OF c2 c2ok this]
  have "is_Map c3" "map_keys c3 = map_keys c2"
    "list_all (class_ok (set (map_keys c2)) (set (map_keys p2))) c3"
    by (simp_all add: c3_def)
  with p2 p2ok show ?thesis by (simp add: b graph_ok_def)
qed

subsection \<open>The fixture of the specification\<close>

lemma iris: 
  "IRI_rdfType = js ''http://www.w3.org/1999/02/22-rdf-syntax-ns#type''"
  "IRI_rdfProperty = js ''http://www.w3.org/1999/02/22-rdf-syntax-ns#Property''"
  "IRI_rdfsClass = js ''http://www.w3.org/2000/01/rdf-schema#Class''"
  "IRI_rdfsSubClassOf = js ''http://www.w3.org/2000/01/rdf-schema#subClassOf''"
  "IRI_schemaDomainIncludes = js ''https://schema.org/domainIncludes''"
  "IRI_schemaRangeIncludes = js ''https://schema.org/rangeIncludes''"
  by (simp_all add: IRI_rdfType_def IRI_rdfProperty_def IRI_rdfsClass_def IRI_rdfsSubClassOf_def IRI_schemaDomainIncludes_def
       IRI_schemaRangeIncludes_def NS_rdf_def NS_rdfs_def NS_schema_def js_def)

lemma buildGraph_thingPerson: "buildGraph (listStore thingPersonQuads) = (thingPersonClasses, thingPersonProps)"
  by (simp add: buildGraph_def collectClasses_def collectProperties_def resolveSubclassing_def
      resolveDomainsAndRanges_def propagatePropertiesToClasses_def attachProperty_def
      getObjects_def listStore_def thingPersonQuads_def triple_def namedNode_def defaultGraph_def
      isNamedNode_def isLiteral_def localName_def iriToLocalName_def iris NS_schema_def
      thingPersonClasses_def thingPersonProps_def map_has_def map_values_def set_add_def
      List.map_filter_def js_def)

lemma collectAllPropsForClass_Person: "collectAllPropsForClass (js ''Person'') thingPersonClasses = [js ''name'']"
  by (simp add: collectAllPropsForClass_def thingPersonClasses_def set_add_def js_def)

lemma topoSortClasses_thingPerson: "topoSortClasses thingPersonClasses = Inr [js ''Thing'', js ''Person'']"
  by (simp add: topoSortClasses_def thingPersonClasses_def js_def map_keys_def map_values_def
      link_all_def init_tables_def link_parent_def map_has_def set_add_def num_get_def
      append_missing_def children_of_def visit_child_def)

lemma emitInterface_Person: \<open>emitInterface quoted thingPersonClasses thingPersonProps (classIdentTable [js ''Thing'', js ''Person'']) (js ''Person'')
   = Inr (js ''export interface Person extends JsonLdCore, Thing {'' @ nl
      @ js ''  "@type"?: "Person" | (string & {});'' @ nl
      @ js ''  "name"?: string | Array<string>;'' @ nl
      @ js ''}'' @ nl)\<close>
  by (simp add: emitInterface_def interfaceHead_def fieldLine_def collectAllPropsForClass_def thingPersonClasses_def thingPersonProps_def classIdentTable_def toTsIdent_def replaceAll_def
      TS_RESERVED_def isIdentPart_def isIdentStart_def isUpper_def isLower_def isDigit_def
      map_has_def propToTs_def rangeToTs_def new_Set_def set_add_def quoted_def nl_def js_def)

lemma emitInterface_Thing: \<open>emitInterface quoted thingPersonClasses thingPersonProps (classIdentTable [js ''Thing'', js ''Person'']) (js ''Thing'')
   = Inr (js ''export interface Thing extends JsonLdCore {'' @ nl
      @ js ''  "@type"?: "Thing" | (string & {});'' @ nl
      @ js ''}'' @ nl)\<close>
  by (simp add: emitInterface_def interfaceHead_def fieldLine_def collectAllPropsForClass_def thingPersonClasses_def thingPersonProps_def classIdentTable_def toTsIdent_def replaceAll_def
      TS_RESERVED_def isIdentPart_def isIdentStart_def isUpper_def isLower_def isDigit_def
      map_has_def propToTs_def rangeToTs_def new_Set_def set_add_def quoted_def nl_def js_def)

subsection \<open>Emitter\<close>

lemma interfaceFields_names:
  "map fst (interfaceFields props tbl xs) = filter (map_has props) xs"
  by (induction xs) (auto simp: map_has_def split: option.splits)

lemma propertiesOf_declared:
  assumes "graph_ok (classes, props)"
  shows "propertiesOf classes S \<subseteq> set (map_keys props)"
proof
  fix p assume "p \<in> propertiesOf classes S"
  then obtain n cls where "map_get classes n = Some cls" and p: "p \<in> set (properties cls)"
    by (auto simp: propertiesOf_def)
  from map_get_Some_mem [OF this(1)] assms
  have "class_ok (set (map_keys classes)) (set (map_keys props)) (n, cls)"
    by (auto simp: graph_ok_def list_all_iff)
  with p show "p \<in> set (map_keys props)" by (auto simp: class_ok_def)
qed

lemma sort_distinct: "distinct xs \<Longrightarrow> sort xs = sorted_list_of_set (set xs)"
  by (simp add: sorted_list_of_set_sort_remdups distinct_remdups_id)

lemma interfaceFields_concat:
  "interfaceFields props tbl xs =
     concat (map (\<lambda>n. case map_get props n of
                          Some pd \<Rightarrow> [(n, propToTs pd tbl)]
                        | None \<Rightarrow> []) xs)"
  by (induction xs) (auto split: option.splits)

lemma sorted_inherited:
  "sort (collectAllPropsForClass c classes)
     = sorted_list_of_set (propertiesOf classes (ancestorsOrSelf classes c))"
  by (simp add: sort_distinct [OF collectAllPropsForClass_distinct] collectAllPropsForClass_set)

lemma interfaceFields_declared:
  "interfaceFields props tbl (sort (collectAllPropsForClass c classes))
     = declaredFields classes props tbl c"
  by (simp add: interfaceFields_concat sorted_inherited declaredFields_def)

lemma emitInterface_declared:
  assumes "map_get classes c = Some cls"
  shows "emitInterface stringify classes props tbl c
     = Inr (declaredInterface stringify classes props tbl c)"
  using assms by (simp add: emitInterface_def declaredInterface_def interfaceFields_declared)

lemma finite_propertiesOf: "finite ns \<Longrightarrow> finite (propertiesOf classes ns)"
proof -
  assume f: "finite ns"
  have "propertiesOf classes ns \<subseteq> \<Union> (set ` properties ` snd ` set classes)"
    by (auto simp: propertiesOf_def dest!: map_get_in_values)
  then show ?thesis by (rule finite_subset) auto
qed

lemma declaredFields_names:
  assumes "graph_ok (classes, props)"
  shows "map fst (declaredFields classes props tbl c)
     = sorted_list_of_set (propertiesOf classes (ancestorsOrSelf classes c))"
proof -
  let ?xs = "sort (collectAllPropsForClass c classes)"
  have s: "set ?xs = propertiesOf classes (ancestorsOrSelf classes c)"
    by (simp add: collectAllPropsForClass_set)
  with propertiesOf_declared [OF assms] have "\<forall>x \<in> set ?xs. map_has props x"
    by (auto simp: map_has_iff)
  then have "filter (map_has props) ?xs = ?xs" by (simp add: filter_id_conv)
  then have "map fst (interfaceFields props tbl ?xs) = ?xs"
    by (simp add: interfaceFields_names)
  then have "map fst (declaredFields classes props tbl c) = ?xs"
    by (simp only: interfaceFields_declared)
  then show ?thesis by (simp only: sorted_inherited)
qed

lemma mapE_all: "(\<And>x. x \<in> set xs \<Longrightarrow> f x = Inr (g x)) \<Longrightarrow> mapE f xs = Inr (map g xs)"
  by (induction xs) auto

lemma graph_ok_names:
  assumes "graph_ok (classes, props)"
  shows "is_Map classes" and "name ` set (map_values classes) \<subseteq> set (map_keys classes)"
proof -
  from assms show "is_Map classes" by (simp add: graph_ok_def)
  from assms have "\<forall>kc \<in> set classes. name (snd kc) = fst kc"
    by (auto simp: graph_ok_def list_all_iff class_ok_def)
  then show "name ` set (map_values classes) \<subseteq> set (map_keys classes)"
    by (force simp: map_values_def map_keys_def)
qed

lemma generateTs_declared:
  assumes "graph_ok (classes, props)"
  shows "\<exists>names. topoSortClasses classes = Inr names \<and> distinct names
     \<and> set names = set (map_keys classes)
     \<and> generateTs stringify (classes, props)
       = Inr (join nl ([header]
            @ map (declaredInterface stringify classes props (classIdentTable names)) names
            @ trailerBlocks stringify (classIdentTable names) names))"
proof -
  note g = graph_ok_names [OF assms]
  from topoSortClasses_result [OF g(1)] g(2) obtain names where
    t: "topoSortClasses classes = Inr names" and d: "distinct names"
    and k: "set names = set (map_keys classes)" by blast
  have "emitInterface stringify classes props (classIdentTable names) c
      = Inr (declaredInterface stringify classes props (classIdentTable names) c)"
    if "c \<in> set names" for c
  proof -
    from that k obtain cls where "map_get classes c = Some cls"
      using map_get_None_iff [of classes c] by auto
    then show ?thesis by (rule emitInterface_declared)
  qed
  then have "mapE (emitInterface stringify classes props (classIdentTable names)) names
      = Inr (map (declaredInterface stringify classes props (classIdentTable names)) names)"
    by (rule mapE_all)
  with t have "generateTs stringify (classes, props)
       = Inr (join nl ([header]
            @ map (declaredInterface stringify classes props (classIdentTable names)) names
            @ trailerBlocks stringify (classIdentTable names) names))"
    by (simp add: generateTs_def Let_def)
  with t d k show ?thesis by blast
qed

lemma buildGraph_inherit: "buildGraph (listStore inheritQuads) = (inheritClasses, inheritProps)"
  by (simp add: buildGraph_def collectClasses_def collectProperties_def resolveSubclassing_def
      resolveDomainsAndRanges_def propagatePropertiesToClasses_def attachProperty_def
      getObjects_def listStore_def inheritQuads_def triple_def namedNode_def defaultGraph_def
      isNamedNode_def isLiteral_def localName_def iriToLocalName_def iris NS_schema_def
      inheritClasses_def inheritProps_def map_has_def map_values_def set_add_def
      List.map_filter_def js_def)

lemma emitInterface_inherit_Person:
  \<open>emitInterface quoted inheritClasses inheritProps
     (classIdentTable [js ''Thing'', js ''Person'']) (js ''Person'')
   = Inr (js ''export interface Person extends JsonLdCore, Thing {'' @ nl
          @ js ''  "@type"?: "Person" | (string & {});'' @ nl
          @ js ''  "name"?: string | Array<string>;'' @ nl
          @ js ''  "url"?: string | Array<string>;'' @ nl
          @ js ''}'' @ nl)\<close>
  by (simp add: emitInterface_def interfaceHead_def fieldLine_def collectAllPropsForClass_def
      inheritClasses_def inheritProps_def classIdentTable_def toTsIdent_def replaceAll_def
      TS_RESERVED_def isIdentPart_def isIdentStart_def isUpper_def isLower_def isDigit_def
      map_has_def propToTs_def rangeToTs_def new_Set_def set_add_def quoted_def nl_def js_def)

lemma emitInterface_inherit_Thing:
  \<open>emitInterface quoted inheritClasses inheritProps
     (classIdentTable [js ''Thing'', js ''Person'']) (js ''Thing'')
   = Inr (js ''export interface Thing extends JsonLdCore {'' @ nl
          @ js ''  "@type"?: "Thing" | (string & {});'' @ nl
          @ js ''  "url"?: string | Array<string>;'' @ nl
          @ js ''}'' @ nl)\<close>
  by (simp add: emitInterface_def interfaceHead_def fieldLine_def collectAllPropsForClass_def
      inheritClasses_def inheritProps_def classIdentTable_def toTsIdent_def replaceAll_def
      TS_RESERVED_def isIdentPart_def isIdentStart_def isUpper_def isLower_def isDigit_def
      map_has_def propToTs_def rangeToTs_def new_Set_def set_add_def quoted_def nl_def js_def)

lemma topoSortClasses_inherit: "topoSortClasses inheritClasses = Inr [js ''Thing'', js ''Person'']"
  by (simp add: topoSortClasses_def inheritClasses_def js_def map_keys_def map_values_def
      link_all_def init_tables_def link_parent_def map_has_def set_add_def num_get_def
      append_missing_def children_of_def visit_child_def)

text \<open>
  Claim C5. The graph the extractor builds from any store is well formed. The interface
  emitted for a class of any graph is its declaration with one field for every property,
  known to the property mapping, in the union of the properties declared by the class
  and by the classes reachable over parent edges; in a well-formed graph these are all
  the properties of the union, each once, and the generated output holds that declaration
  for every class, in linearized order, between the header and the closing tables. In the
  fixture of the specification the interface of \<open>Person\<close> extends \<open>Thing\<close> and has the field
  \<open>name\<close>, and the interface of \<open>Thing\<close> has no field but \<open>@type\<close>; where \<open>Thing\<close> declares
  \<open>url\<close>, the interface of \<open>Person\<close> has the fields \<open>name\<close> and \<open>url\<close>.
\<close>

theorem emitted_fields_inherited:
  \<open>graph_ok (buildGraph getQuads)
   \<and> (map_get classes c = Some cls \<longrightarrow>
        emitInterface stringify classes props tbl c
          = Inr (declaredInterface stringify classes props tbl c))
   \<and> (graph_ok (classes, props) \<longrightarrow>
        map fst (declaredFields classes props tbl c)
          = sorted_list_of_set (propertiesOf classes (ancestorsOrSelf classes c))
        \<and> (\<exists>names. topoSortClasses classes = Inr names \<and> distinct names
              \<and> set names = set (map_keys classes)
              \<and> generateTs stringify (classes, props)
                = Inr (join nl ([header]
                     @ map (declaredInterface stringify classes props (classIdentTable names)) names
                     @ trailerBlocks stringify (classIdentTable names) names))))
   \<and> buildGraph (listStore thingPersonQuads) = (thingPersonClasses, thingPersonProps)
   \<and> emitInterface quoted thingPersonClasses thingPersonProps
        (classIdentTable [js ''Thing'', js ''Person'']) (js ''Person'')
      = Inr (js ''export interface Person extends JsonLdCore, Thing {'' @ nl
             @ js ''  "@type"?: "Person" | (string & {});'' @ nl
             @ js ''  "name"?: string | Array<string>;'' @ nl
             @ js ''}'' @ nl)
   \<and> emitInterface quoted thingPersonClasses thingPersonProps
        (classIdentTable [js ''Thing'', js ''Person'']) (js ''Thing'')
      = Inr (js ''export interface Thing extends JsonLdCore {'' @ nl
             @ js ''  "@type"?: "Thing" | (string & {});'' @ nl
             @ js ''}'' @ nl)
   \<and> buildGraph (listStore inheritQuads) = (inheritClasses, inheritProps)
   \<and> emitInterface quoted inheritClasses inheritProps
        (classIdentTable [js ''Thing'', js ''Person'']) (js ''Person'')
      = Inr (js ''export interface Person extends JsonLdCore, Thing {'' @ nl
             @ js ''  "@type"?: "Person" | (string & {});'' @ nl
             @ js ''  "name"?: string | Array<string>;'' @ nl
             @ js ''  "url"?: string | Array<string>;'' @ nl
             @ js ''}'' @ nl)\<close>
  using buildGraph_ok [of getQuads] emitInterface_declared [of classes c cls stringify props tbl]
    declaredFields_names [of classes props tbl c] generateTs_declared [of classes props stringify]
    buildGraph_thingPerson emitInterface_Person emitInterface_Thing buildGraph_inherit
    emitInterface_inherit_Person
  by blast

theorem emitted_fields_inherited_witness:
  \<open>graph_ok (inheritClasses, inheritProps)
   \<and> map_get inheritClasses (js ''Person'')
      = Some \<lparr>name = js ''Person'', iri = js ''https://schema.org/Person'',
              parents = [js ''Thing''], properties = [js ''name'']\<rparr>
   \<and> declaredInterface quoted inheritClasses inheritProps
        (classIdentTable [js ''Thing'', js ''Person'']) (js ''Person'')
      = js ''export interface Person extends JsonLdCore, Thing {'' @ nl
        @ js ''  "@type"?: "Person" | (string & {});'' @ nl
        @ js ''  "name"?: string | Array<string>;'' @ nl
        @ js ''  "url"?: string | Array<string>;'' @ nl
        @ js ''}'' @ nl
   \<and> sorted_list_of_set
        (propertiesOf inheritClasses (ancestorsOrSelf inheritClasses (js ''Person'')))
      = [js ''name'', js ''url'']
   \<and> generateTs quoted (inheritClasses, inheritProps)
      = Inr (join nl ([header]
           @ map (declaredInterface quoted inheritClasses inheritProps
                    (classIdentTable [js ''Thing'', js ''Person'']))
               [js ''Thing'', js ''Person'']
           @ trailerBlocks quoted (classIdentTable [js ''Thing'', js ''Person''])
               [js ''Thing'', js ''Person'']))\<close>
proof -
  let ?cls = "\<lparr>name = js ''Person'', iri = js ''https://schema.org/Person'',
              parents = [js ''Thing''], properties = [js ''name'']\<rparr>"
  let ?tbl = "classIdentTable [js ''Thing'', js ''Person'']"
  note t = emitted_fields_inherited [of "listStore inheritQuads" inheritClasses "js ''Person''"
      ?cls quoted inheritProps ?tbl]
  from t have g: "graph_ok (inheritClasses, inheritProps)"
    by (simp only: buildGraph_inherit)
  have m: "map_get inheritClasses (js ''Person'') = Some ?cls"
    by (simp add: inheritClasses_def js_def)
  from t m have "emitInterface quoted inheritClasses inheritProps ?tbl (js ''Person'')
      = Inr (declaredInterface quoted inheritClasses inheritProps ?tbl (js ''Person''))" by blast
  then have d: \<open>declaredInterface quoted inheritClasses inheritProps ?tbl (js ''Person'')
      = js ''export interface Person extends JsonLdCore, Thing {'' @ nl
        @ js ''  "@type"?: "Person" | (string & {});'' @ nl
        @ js ''  "name"?: string | Array<string>;'' @ nl
        @ js ''  "url"?: string | Array<string>;'' @ nl
        @ js ''}'' @ nl\<close>
    by (simp only: emitInterface_inherit_Person sum.inject)
  have f: "map fst (interfaceFields inheritProps ?tbl
        (sort (collectAllPropsForClass (js ''Person'') inheritClasses)))
      = [js ''name'', js ''url'']"
    by (simp add: collectAllPropsForClass_def inheritClasses_def inheritProps_def
        set_add_def js_def)
  from t g have "map fst (declaredFields inheritClasses inheritProps ?tbl (js ''Person''))
      = sorted_list_of_set
          (propertiesOf inheritClasses (ancestorsOrSelf inheritClasses (js ''Person'')))"
    by blast
  with f have u: "sorted_list_of_set
        (propertiesOf inheritClasses (ancestorsOrSelf inheritClasses (js ''Person'')))
      = [js ''name'', js ''url'']"
    by (simp only: interfaceFields_declared)
  from t g obtain names where n: "topoSortClasses inheritClasses = Inr names"
    and gen: "generateTs quoted (inheritClasses, inheritProps)
      = Inr (join nl ([header]
           @ map (declaredInterface quoted inheritClasses inheritProps (classIdentTable names)) names
           @ trailerBlocks quoted (classIdentTable names) names))"
    by blast
  from n have "names = [js ''Thing'', js ''Person'']"
    by (simp add: topoSortClasses_inherit)
  with gen g m d u show ?thesis by simp
qed







subsection \<open>Order of the linearization\<close>

































text \<open>
  A parent listed twice counts twice in the in-degree but once in the set of children: the
  class never reaches in-degree 0 and is appended at the end, here after its own child.
\<close>

lemma topoSortClasses_repeatedParent:
  "topoSortClasses repeatedParent = Inr [js ''P'', js ''D'', js ''Z'']"
  by (simp add: topoSortClasses_def repeatedParent_def js_def map_keys_def map_values_def
      link_all_def init_tables_def link_parent_def map_has_def set_add_def num_get_def
      append_missing_def children_of_def visit_child_def)




end
